theory Spec2Isabelle
  imports Main
begin

section \<open>Values, diagnostics and the host language\<close>

text \<open>
  A JavaScript value as the validator meets it: what \<open>JSON.parse\<close> returns, and
  \<open>undefined\<close>, which a decoded input or a missing argument can hold. Numbers are the
  host's floating-point numbers, kept abstract as the type parameter \<open>'n\<close>. An object is
  the list of its own enumerable properties in the order \<open>Object.entries\<close> lists them.
  A string is a list of code units; \<open>char\<close> has eight bits, so the model covers the code
  units below 256.
\<close>

datatype 'n json =
    JNull
  | JUndefined
  | JBool bool
  | JNum 'n
  | JStr string
  | JArr "'n json list"
  | JObj "(string \<times> 'n json) list"

text \<open>\<open>src/validation-error.js\<close>: the four fields of a diagnostic.\<close>

record ValidationError =
  path :: string
  message :: string
  code :: string
  category :: string

text \<open>
  What a read of a property can give when the property is looked up on the prototype
  chain of an object: a value as above, or an object of the runtime (a function such as
  \<open>Object.prototype.toString\<close>, or a prototype object itself). Such an object is never
  identical to a value of the document, and the relational operators convert it to a
  text, so the text it converts to is all that is kept of it.
\<close>

datatype 'n operand = Plain "'n json" | HostObject string

text \<open>
  What the code takes from the JavaScript runtime and the model cannot compute itself:
  \<open>JSON.parse\<close> (\<open>Inl\<close> the message of the error it throws), \<open>JSON.stringify\<close> as a
  template literal prints it, \<open>Number\<close> on a text, \<open>===\<close> on two numbers, the four
  relational operators on two values, \<open>String\<close> on a value,
  \<open>new RegExp(pattern, flags).test(subject)\<close> (\<open>None\<close> when the constructor throws),
  and \<open>prototype_get\<close>: what reading the property of a given name finds on a prototype
  chain, the chain that starts at \<open>Object.prototype\<close> (\<open>None\<close>) or at a given array or
  object whose own chain is the one it was created with (\<open>Some\<close>); the getter of
  \<open>__proto__\<close> answers with the start of the chain.
\<close>

record 'n host =
  json_parse :: "string \<Rightarrow> string + 'n json"
  json_stringify :: "'n json \<Rightarrow> string"
  to_number :: "string \<Rightarrow> 'n"
  num_eq :: "'n \<Rightarrow> 'n \<Rightarrow> bool"
  js_lt :: "'n json \<Rightarrow> 'n json \<Rightarrow> bool"
  js_gt :: "'n json \<Rightarrow> 'n json \<Rightarrow> bool"
  js_le :: "'n json \<Rightarrow> 'n json \<Rightarrow> bool"
  js_ge :: "'n json \<Rightarrow> 'n json \<Rightarrow> bool"
  to_string :: "'n json \<Rightarrow> string"
  regexp_test :: "string \<Rightarrow> string \<Rightarrow> string \<Rightarrow> bool option"
  prototype_get :: "'n json option \<Rightarrow> string \<Rightarrow> 'n operand"

text \<open>
  \<open>a === b\<close>. Two arrays or two objects are strictly equal only when they are the same
  object; the operands compared here are a value of the document and a value of the
  schema (or a coerced literal), which never are.
\<close>

fun strict_eq :: "'n host \<Rightarrow> 'n json \<Rightarrow> 'n json \<Rightarrow> bool" where
  "strict_eq h JNull JNull = True"
| "strict_eq h JUndefined JUndefined = True"
| "strict_eq h (JBool a) (JBool b) = (a = b)"
| "strict_eq h (JNum a) (JNum b) = num_eq h a b"
| "strict_eq h (JStr a) (JStr b) = (a = b)"
| "strict_eq h _ _ = False"

text \<open>\<open>isObject\<close>: not null, of type object, and not an array.\<close>

fun isObject :: "'n json \<Rightarrow> bool" where
  "isObject (JObj kvs) = True"
| "isObject _ = False"

text \<open>\<open>Object.prototype.hasOwnProperty.call(value, key)\<close> and \<open>value[key]\<close> on an own key.\<close>

fun hasOwnProperty :: "'n json \<Rightarrow> string \<Rightarrow> bool" where
  "hasOwnProperty (JObj kvs) k = (k \<in> set (map fst kvs))"
| "hasOwnProperty _ k = False"

fun get_property :: "'n json \<Rightarrow> string \<Rightarrow> 'n json" where
  "get_property (JObj kvs) k = (case map_of kvs k of Some v \<Rightarrow> v | None \<Rightarrow> JUndefined)"
| "get_property _ k = JUndefined"

section \<open>Characters and text\<close>

definition dquote :: char where "dquote = CHR 0x22"
definition squote :: char where "squote = CHR 0x27"
definition backslash :: char where "backslash = CHR 0x5C"

text \<open>
  The white space of \<open>String.prototype.trim\<close> and of \<open>\s\<close> among the code units below
  256: tab, line feed, vertical tab, form feed, carriage return, space, no-break space.
\<close>

definition is_ws :: "char \<Rightarrow> bool" where
  "is_ws c = (c \<in> set [CHR 0x09, CHR 0x0A, CHR 0x0B, CHR 0x0C, CHR 0x0D, CHR 0x20, CHR 0xA0])"

definition is_digit :: "char \<Rightarrow> bool" where
  "is_digit c = (c \<in> set ''0123456789'')"

definition is_lower :: "char \<Rightarrow> bool" where
  "is_lower c = (c \<in> set ''abcdefghijklmnopqrstuvwxyz'')"

definition ident_start :: "char \<Rightarrow> bool" where
  "ident_start c = (c \<in> set ''ABCDEFGHIJKLMNOPQRSTUVWXYZabcdefghijklmnopqrstuvwxyz_'')"

definition ident_char :: "char \<Rightarrow> bool" where
  "ident_char c = (ident_start c \<or> is_digit c)"

definition trim :: "string \<Rightarrow> string" where
  "trim s = rev (dropWhile is_ws (rev (dropWhile is_ws s)))"

definition startsWith :: "string \<Rightarrow> string \<Rightarrow> bool" where
  "startsWith s p = (take (length p) s = p)"

definition endsWith :: "string \<Rightarrow> string \<Rightarrow> bool" where
  "endsWith s p = (length p \<le> length s \<and> drop (length s - length p) s = p)"

section \<open>Literal coercion\<close>

text \<open>
  \<open>decodeStringLiteral\<close>: the loop over the indices \<open>1 .. length - 2\<close>, with its two
  variables \<open>out\<close> and \<open>escaped\<close> as the state.
\<close>

fun decode_char :: "string \<times> bool \<Rightarrow> char \<Rightarrow> string \<times> bool" where
  "decode_char (out, escaped) c =
     (if escaped then
        (if c = CHR ''n'' then (out @ [CHR 0x0A], False)
         else if c = CHR ''r'' then (out @ [CHR 0x0D], False)
         else if c = CHR ''t'' then (out @ [CHR 0x09], False)
         else (out @ [c], False))
      else if c = backslash then (out, True)
      else (out @ [c], False))"

definition decodeStringLiteral :: "string \<Rightarrow> string" where
  "decodeStringLiteral v =
     fst (foldl decode_char ([], False) (map (\<lambda>i. v ! i) [1 ..< length v - 1]))"

text \<open>
  The test \<open>/^-?\d+(?:\.\d+)?$/\<close>: an optional minus sign, the longest run of digits
  (not empty), then either the end of the text or a dot followed by digits only (not
  empty) up to the end.
\<close>

definition is_numeric_literal :: "string \<Rightarrow> bool" where
  "is_numeric_literal s =
     (let r = (if startsWith s ''-'' then tl s else s);
          whole = takeWhile is_digit r;
          rest = dropWhile is_digit r
      in whole \<noteq> [] \<and>
         (rest = [] \<or> (hd rest = CHR ''.'' \<and> tl rest \<noteq> [] \<and> list_all is_digit (tl rest))))"

text \<open>\<open>parseMaybeLiteral\<close>.\<close>

fun parseMaybeLiteral :: "'n host \<Rightarrow> 'n json \<Rightarrow> 'n json" where
  "parseMaybeLiteral h (JStr v) =
     (let trimmed = trim v in
      if trimmed = ''true'' then JBool True
      else if trimmed = ''false'' then JBool False
      else if trimmed = ''null'' then JNull
      else if is_numeric_literal trimmed then JNum (to_number h trimmed)
      else if (startsWith trimmed [dquote] \<and> endsWith trimmed [dquote])
            \<or> (startsWith trimmed [squote] \<and> endsWith trimmed [squote])
        then JStr (decodeStringLiteral trimmed)
      else JStr trimmed)"
| "parseMaybeLiteral h v = v"

section \<open>The schema model\<close>

text \<open>
  A constraint usage: its name, the call arguments (absent, or a list of raw values,
  texts as a rule) and the single raw argument (\<open>JNull\<close> when there is none).
\<close>

record 'n constraintUsage =
  constraint_name :: string
  callArgs :: "'n json list option"
  argument :: "'n json"

text \<open>
  A type node, one constructor for each \<open>kind\<close> the evaluator dispatches on. The code is
  dynamically typed and guards against three more shapes, which the last three
  constructors stand for: \<open>KOther k\<close> is an object whose \<open>kind\<close> is \<open>k\<close>, none of the
  eleven handled kinds; \<open>NullNode\<close> is \<open>null\<close> or \<open>undefined\<close> where a node is expected;
  \<open>PrimitiveNode b\<close> is any other value that is not an object, \<open>b\<close> telling whether it
  is truthy. The constraints of a named node may be missing (\<open>constraints ?? []\<close>).
\<close>

datatype 'n typeNode =
    KNamed string "'n constraintUsage list option"
  | KNullableNamed string
  | KNullable "'n typeNode"
  | KArray "'n typeNode" "'n constraintUsage list"
  | KRecord "'n fieldDef list"
  | KDict "'n typeNode" "'n typeNode"
  | KUnion "'n typeNode list"
  | KIntersection "'n typeNode list"
  | KConditional string "'n typeNode" "'n typeNode"
  | KLiteral "'n json"
  | KAbsent
  | KOther string
  | NullNode
  | PrimitiveNode bool
and 'n fieldDef =
    FieldDef (field_name: string) (field_type: "'n typeNode") (optional: bool)
      (defaultExpr: "string option")

definition handled_kinds :: "string list" where
  "handled_kinds = [''named'', ''nullableNamed'', ''nullable'', ''array'', ''record'', ''dict'',
     ''union'', ''intersection'', ''conditional'', ''literal'', ''absent'']"

text \<open>The truthiness of what stands where a node is expected (\<open>if (branch)\<close>).\<close>

fun truthy_node :: "'n typeNode \<Rightarrow> bool" where
  "truthy_node NullNode = False"
| "truthy_node (PrimitiveNode b) = b"
| "truthy_node _ = True"

text \<open>
  What the repository holds. A type definition is used as a builtin when \<open>isBuiltin\<close> is
  set and \<open>matches\<close> is a function; a validator definition when \<open>isBuiltin\<close> is set and
  \<open>evaluate\<close> is a function, whose result may be any value.
\<close>

record 'n typeDefinition =
  type_isBuiltin :: bool
  matches :: "('n json \<Rightarrow> bool) option"
  expr :: "'n typeNode"

record paramDef =
  param_name :: string
  param_defaultExpr :: "string option"

record 'n validatorDefinition =
  validator_isBuiltin :: bool
  evaluate :: "('n json \<Rightarrow> 'n json \<Rightarrow> 'n json) option"
  body :: "string option"
  params :: "paramDef list"

text \<open>
  The repository is read only: three queries. \<open>resolveRootType\<close> throws when it cannot
  resolve (\<open>Inl\<close> the message of what it throws).
\<close>

record 'n repository =
  resolveRootType :: "string option \<Rightarrow> string + string"
  getType :: "string \<Rightarrow> 'n typeDefinition option"
  getValidator :: "string \<Rightarrow> string \<Rightarrow> 'n validatorDefinition option"

record 'n scope =
  root :: "'n json"
  current :: "'n json"
  parent :: "'n json"

definition newValidationError :: "string \<Rightarrow> string \<Rightarrow> string \<Rightarrow> string \<Rightarrow> ValidationError" where
  "newValidationError p m c k = \<lparr>path = p, message = m, code = c, category = k\<rparr>"

fun nullish :: "'n json \<Rightarrow> bool" where
  "nullish JNull = True"
| "nullish JUndefined = True"
| "nullish _ = False"

section \<open>The expression interpreter\<close>

definition skip_ws :: "string \<Rightarrow> string" where
  "skip_ws s = dropWhile is_ws s"

text \<open>\<open>\s+\<close>: at least one white space, then all that follow.\<close>

definition some_ws :: "string \<Rightarrow> string option" where
  "some_ws s = (case s of [] \<Rightarrow> None | c # r \<Rightarrow> if is_ws c then Some (skip_ws r) else None)"

definition after_prefix :: "string \<Rightarrow> string \<Rightarrow> string option" where
  "after_prefix p s = (if startsWith s p then Some (drop (length p) s) else None)"

text \<open>\<open>[A-Za-z_][A-Za-z0-9_]*\<close> at the start of a text: the identifier and what follows it.\<close>

definition take_ident :: "string \<Rightarrow> (string \<times> string) option" where
  "take_ident s =
     (case s of [] \<Rightarrow> None
      | c # r \<Rightarrow> if ident_start c then Some (c # takeWhile ident_char r, dropWhile ident_char r)
                else None)"

text \<open>
  \<open>\s*(.+)$\<close> with the flag \<open>s\<close>, on a text that is not empty: the white space is
  skipped, and when nothing is left the group takes the last character back.
\<close>

definition rest_group :: "string \<Rightarrow> string" where
  "rest_group r = (let d = skip_ws r in if d = [] then [last r] else d)"

subsection \<open>Conditional guards\<close>

text \<open>
  After the first character of the dotted path: the rest of group 1 of
  \<open>/^([A-Za-z_][A-Za-z0-9_]*(?:\.[A-Za-z_][A-Za-z0-9_]*)*)\s*(=|!=)\s*(.+)$/s\<close> and the
  text after it. The group is greedy, and no shorter match lets the rest of the
  expression match: it would be followed by an identifier character or a dot.
\<close>

fun dotted_tail :: "string \<Rightarrow> string \<times> string" where
  "dotted_tail [] = ([], [])"
| "dotted_tail [c] = (if ident_char c then ([c], []) else ([], [c]))"
| "dotted_tail (c # d # ds) =
     (if ident_char c then (let (g, r) = dotted_tail (d # ds) in (c # g, r))
      else if c = CHR ''.'' \<and> ident_start d then (let (g, r) = dotted_tail ds in (c # d # g, r))
      else ([], c # d # ds))"

text \<open>The three groups of the guard expression, when it matches.\<close>

definition match_condition :: "string \<Rightarrow> (string \<times> string \<times> string) option" where
  "match_condition c =
     (case c of [] \<Rightarrow> None
      | a # cs \<Rightarrow>
          if \<not> ident_start a then None
          else (let (g, r1) = dotted_tail cs; r2 = skip_ws r1 in
                case (if startsWith r2 ''='' then Some (''='', drop 1 r2)
                      else if startsWith r2 ''!='' then Some (''!='', drop 2 r2)
                      else None) of
                  None \<Rightarrow> None
                | Some (opr, r3) \<Rightarrow> if r3 = [] then None else Some (a # g, opr, rest_group r3)))"

text \<open>\<open>text.split(sep)\<close> for a separator of one character.\<close>

fun split_on :: "char \<Rightarrow> string \<Rightarrow> string list" where
  "split_on sep [] = [[]]"
| "split_on sep (c # cs) =
     (if c = sep then [] # split_on sep cs
      else (case split_on sep cs of [] \<Rightarrow> [[c]] | x # xs \<Rightarrow> (c # x) # xs))"

text \<open>
  The loop over the segments: \<open>None\<close> when it returns \<open>false\<close> from inside, else the
  value it ends on.
\<close>

fun walk_path :: "string list \<Rightarrow> 'n json \<Rightarrow> 'n json option" where
  "walk_path [] cur = Some cur"
| "walk_path (segment # segments) cur =
     (if \<not> isObject cur \<or> \<not> hasOwnProperty cur segment then None
      else walk_path segments (get_property cur segment))"

text \<open>\<open>evaluateCondition\<close>: \<open>None\<close> is the result \<open>null\<close>.\<close>

definition evaluateCondition :: "'n host \<Rightarrow> string \<Rightarrow> 'n json \<Rightarrow> bool option" where
  "evaluateCondition h condition objectValue =
     (if \<not> isObject objectValue then None
      else case match_condition condition of
        None \<Rightarrow> None
      | Some (m1, m2, m3) \<Rightarrow>
          (let segments = split_on (CHR ''.'') m1;
               expected = parseMaybeLiteral h (JStr (trim m3))
           in case walk_path segments objectValue of
                None \<Rightarrow> Some False
              | Some cur \<Rightarrow>
                  if m2 = ''='' then Some (strict_eq h cur expected)
                  else Some (\<not> strict_eq h cur expected)))"

subsection \<open>Constraint bodies\<close>

text \<open>
  \<open>compare\<close>. The right operand is a coerced literal or what a read of \<open>args\<close> gave. A
  relational operator converts an object of the runtime to its text first; \<open>===\<close> between
  a value of the document and such an object is false.
\<close>

fun relational_operand :: "'n operand \<Rightarrow> 'n json" where
  "relational_operand (Plain r) = r"
| "relational_operand (HostObject t) = JStr t"

fun strict_eq_operand :: "'n host \<Rightarrow> 'n json \<Rightarrow> 'n operand \<Rightarrow> bool" where
  "strict_eq_operand h left (Plain r) = strict_eq h left r"
| "strict_eq_operand h left (HostObject t) = False"

definition compare :: "'n host \<Rightarrow> 'n json \<Rightarrow> string \<Rightarrow> 'n operand \<Rightarrow> bool" where
  "compare h left operator right =
     (if operator = ''<'' then js_lt h left (relational_operand right)
      else if operator = ''>'' then js_gt h left (relational_operand right)
      else if operator = ''<='' then js_le h left (relational_operand right)
      else if operator = ''>='' then js_ge h left (relational_operand right)
      else if operator = ''='' then strict_eq_operand h left right
      else if operator = ''!='' then \<not> strict_eq_operand h left right
      else False)"

text \<open>
  \<open>compileRegexLiteral\<close>, up to the constructor call: the groups of
  \<open>/^\/(.*)\/([a-z]*)$/s\<close>. The greedy group ends at the last slash, the only one that
  no slash follows; the flags are what follows it.
\<close>

definition compileRegexLiteral :: "string \<Rightarrow> (string \<times> string) option" where
  "compileRegexLiteral raw =
     (case raw of [] \<Rightarrow> None
      | c # r \<Rightarrow>
          if c \<noteq> CHR ''/'' then None
          else (let flags = rev (takeWhile (\<lambda>x. x \<noteq> CHR ''/'') (rev r)) in
                if CHR ''/'' \<in> set r \<and> list_all is_lower flags
                then Some (take (length r - length flags - 1) r, flags)
                else None))"

text \<open>\<open>compiled ? compiled.test(subject) : null\<close>.\<close>

definition test_regex_literal :: "'n host \<Rightarrow> string \<Rightarrow> string \<Rightarrow> bool option" where
  "test_regex_literal h raw subject =
     (case compileRegexLiteral raw of
        None \<Rightarrow> None
      | Some (pattern, flags) \<Rightarrow> regexp_test h pattern flags subject)"

text \<open>
  A text that starts and ends with a slash, two characters at least: \<open>(\/.*\/)\<close> up to
  the end of the text.
\<close>

definition slashed :: "string \<Rightarrow> bool" where
  "slashed r = (2 \<le> length r \<and> hd r = CHR ''/'' \<and> last r = CHR ''/'')"

text \<open>
  \<open>/^not\s*\(\s*this\s+matches\s+(\/.*\/)\s*\)$/s\<close>: the group, when the body matches. The
  group ends at the last slash of the body, which only white space and the closing
  parenthesis may follow.
\<close>

definition match_regexNegation :: "string \<Rightarrow> string option" where
  "match_regexNegation b =
     (case after_prefix ''not'' b of None \<Rightarrow> None | Some r1 \<Rightarrow>
      case after_prefix ''('' (skip_ws r1) of None \<Rightarrow> None | Some r2 \<Rightarrow>
      case after_prefix ''this'' (skip_ws r2) of None \<Rightarrow> None | Some r3 \<Rightarrow>
      case some_ws r3 of None \<Rightarrow> None | Some r4 \<Rightarrow>
      case after_prefix ''matches'' r4 of None \<Rightarrow> None | Some r5 \<Rightarrow>
      case some_ws r5 of None \<Rightarrow> None | Some r6 \<Rightarrow>
        if r6 = [] \<or> last r6 \<noteq> CHR '')'' then None
        else (let g = rev (skip_ws (rev (butlast r6))) in
              if slashed g then Some g else None))"

text \<open>\<open>/^this\s+matches\s+(\/.*\/)$/s\<close>.\<close>

definition match_regexMatch :: "string \<Rightarrow> string option" where
  "match_regexMatch b =
     (case after_prefix ''this'' b of None \<Rightarrow> None | Some r1 \<Rightarrow>
      case some_ws r1 of None \<Rightarrow> None | Some r2 \<Rightarrow>
      case after_prefix ''matches'' r2 of None \<Rightarrow> None | Some r3 \<Rightarrow>
      case some_ws r3 of None \<Rightarrow> None | Some r4 \<Rightarrow>
        if slashed r4 then Some r4 else None)"

text \<open>\<open>([<>]=?)\<close>: the operator and what follows it.\<close>

definition take_relop :: "string \<Rightarrow> (string \<times> string) option" where
  "take_relop s =
     (case s of [] \<Rightarrow> None
      | c # r \<Rightarrow>
          if c = CHR ''<'' \<or> c = CHR ''>'' then
            (if startsWith r ''='' then Some ([c, CHR ''=''], tl r) else Some ([c], r))
          else None)"

text \<open>\<open>this\s*([<>]=?)\s*\$([A-Za-z_][A-Za-z0-9_]*)\<close>: the two groups and what follows.\<close>

definition take_bound :: "string \<Rightarrow> (string \<times> string \<times> string) option" where
  "take_bound s =
     (case after_prefix ''this'' s of None \<Rightarrow> None | Some r1 \<Rightarrow>
      case take_relop (skip_ws r1) of None \<Rightarrow> None | Some (opr, r2) \<Rightarrow>
      case after_prefix ''$'' (skip_ws r2) of None \<Rightarrow> None | Some r3 \<Rightarrow>
      case take_ident r3 of None \<Rightarrow> None | Some (name, r4) \<Rightarrow> Some (opr, name, r4))"

text \<open>
  \<open>/^this\s*([<>]=?)\s*\$([A-Za-z_][A-Za-z0-9_]*)\s+and\s+this\s*([<>]=?)\s*\$([A-Za-z_][A-Za-z0-9_]*)$/\<close>:
  the four groups.
\<close>

definition match_rangeAnd :: "string \<Rightarrow> (string \<times> string \<times> string \<times> string) option" where
  "match_rangeAnd b =
     (case take_bound b of None \<Rightarrow> None | Some (op1, name1, r1) \<Rightarrow>
      case some_ws r1 of None \<Rightarrow> None | Some r2 \<Rightarrow>
      case after_prefix ''and'' r2 of None \<Rightarrow> None | Some r3 \<Rightarrow>
      case some_ws r3 of None \<Rightarrow> None | Some r4 \<Rightarrow>
      case take_bound r4 of None \<Rightarrow> None | Some (op2, name2, r5) \<Rightarrow>
        if r5 = [] then Some (op1, name1, op2, name2) else None)"

text \<open>
  The alternatives of \<open>(<=|>=|<|>|=|!=)\<close> in their order: the first one that the text
  starts with and that leaves something for \<open>(.+)\<close>.
\<close>

fun first_operator :: "string list \<Rightarrow> string \<Rightarrow> (string \<times> string) option" where
  "first_operator [] r = None"
| "first_operator (opr # oprs) r =
     (case after_prefix opr r of
        None \<Rightarrow> first_operator oprs r
      | Some r' \<Rightarrow> if r' = [] then first_operator oprs r else Some (opr, rest_group r'))"

text \<open>\<open>/^this\s*(<=|>=|<|>|=|!=)\s*(.+)$/s\<close>: the two groups.\<close>

definition match_simpleComparison :: "string \<Rightarrow> (string \<times> string) option" where
  "match_simpleComparison b =
     (case after_prefix ''this'' b of
        None \<Rightarrow> None
      | Some r \<Rightarrow> first_operator [''<='', ''>='', ''<'', ''>'', ''='', ''!=''] (skip_ws r))"

text \<open>
  The object \<open>args\<close>, created by \<open>{}\<close>: its own properties, the latest assigned first,
  and its prototype, which is \<open>Object.prototype\<close> at first.
\<close>

datatype 'n proto = ObjectPrototype | NoPrototype | ValuePrototype "'n json"

record 'n args_object =
  own :: "(string \<times> 'n json) list"
  prototype :: "'n proto"

definition new_object :: "'n args_object" where
  "new_object = \<lparr>own = [], prototype = ObjectPrototype\<rparr>"

text \<open>
  \<open>args[name] = value\<close>. Every property that \<open>args\<close> can inherit is a writable data
  property, but one: \<open>__proto__\<close> of \<open>Object.prototype\<close>, an accessor. The assignment
  therefore makes or updates an own property, unless the name is \<open>__proto__\<close>, \<open>args\<close>
  has no own property of that name, and the lookup along the chain reaches the accessor:
  the chain must not have ended (a prototype \<open>null\<close>) and the prototype must not have
  an own property \<open>__proto__\<close>, which \<open>JSON.parse\<close> can make. The setter then replaces the
  prototype when the value is an object, an array or \<open>null\<close>, and does nothing for any
  other value.
\<close>

fun setter_reached :: "'n proto \<Rightarrow> bool" where
  "setter_reached ObjectPrototype = True"
| "setter_reached NoPrototype = False"
| "setter_reached (ValuePrototype v) = (\<not> hasOwnProperty v ''__proto__'')"

fun proto_setter :: "'n args_object \<Rightarrow> 'n json \<Rightarrow> 'n args_object" where
  "proto_setter args (JObj kvs) = args\<lparr>prototype := ValuePrototype (JObj kvs)\<rparr>"
| "proto_setter args (JArr items) = args\<lparr>prototype := ValuePrototype (JArr items)\<rparr>"
| "proto_setter args JNull = args\<lparr>prototype := NoPrototype\<rparr>"
| "proto_setter args _ = args"

definition args_set :: "'n args_object \<Rightarrow> string \<Rightarrow> 'n json \<Rightarrow> 'n args_object" where
  "args_set args name v =
     (if name = ''__proto__'' \<and> name \<notin> set (map fst (own args)) \<and> setter_reached (prototype args)
      then proto_setter args v
      else args\<lparr>own := (name, v) # own args\<rparr>)"

text \<open>
  \<open>args[name]\<close>: the own property when there is one, else what the prototype chain
  holds, \<open>undefined\<close> when the chain has ended.
\<close>

definition args_get :: "'n host \<Rightarrow> 'n args_object \<Rightarrow> string \<Rightarrow> 'n operand" where
  "args_get h args name =
     (case map_of (own args) name of
        Some v \<Rightarrow> Plain v
      | None \<Rightarrow>
          (case prototype args of
             ObjectPrototype \<Rightarrow> prototype_get h None name
           | NoPrototype \<Rightarrow> Plain JUndefined
           | ValuePrototype v \<Rightarrow> prototype_get h (Some v) name))"

definition incoming_args :: "'n constraintUsage \<Rightarrow> 'n json list" where
  "incoming_args constraint =
     (case callArgs constraint of
        Some as \<Rightarrow> as
      | None \<Rightarrow> if argument constraint = JNull then [] else [argument constraint])"

definition raw_arg :: "'n json list \<Rightarrow> paramDef \<Rightarrow> nat \<Rightarrow> 'n json" where
  "raw_arg incoming param index =
     (let given = (if index < length incoming then incoming ! index else JUndefined) in
      if \<not> nullish given then given
      else (case param_defaultExpr param of Some d \<Rightarrow> JStr d | None \<Rightarrow> JNull))"

definition bind_params :: "'n host \<Rightarrow> paramDef list \<Rightarrow> 'n json list \<Rightarrow> 'n args_object" where
  "bind_params h ps incoming =
     foldl (\<lambda>args (param, index).
              args_set args (param_name param) (parseMaybeLiteral h (raw_arg incoming param index)))
       new_object (zip ps [0 ..< length ps])"

text \<open>\<open>String(value ?? '')\<close>.\<close>

definition subject_text :: "'n host \<Rightarrow> 'n json \<Rightarrow> string" where
  "subject_text h v = to_string h (if nullish v then JStr [] else v)"

text \<open>\<open>evaluateCustomValidator\<close>: \<open>None\<close> is the result \<open>null\<close>.\<close>

definition evaluateCustomValidator ::
  "'n host \<Rightarrow> 'n validatorDefinition \<Rightarrow> 'n constraintUsage \<Rightarrow> 'n json \<Rightarrow> 'n scope \<Rightarrow> bool option" where
  "evaluateCustomValidator h validator constraint v scope =
     (case body validator of
        None \<Rightarrow> None
      | Some text \<Rightarrow>
          if text = [] then None
          else (let args = bind_params h (params validator) (incoming_args constraint);
                    b = trim text
                in case match_regexNegation b of
                     Some raw \<Rightarrow> map_option Not (test_regex_literal h raw (subject_text h v))
                   | None \<Rightarrow>
                 (case match_regexMatch b of
                     Some raw \<Rightarrow> test_regex_literal h raw (subject_text h v)
                   | None \<Rightarrow>
                 (case match_rangeAnd b of
                     Some (op1, name1, op2, name2) \<Rightarrow>
                       Some (compare h v op1 (args_get h args name1)
                             \<and> compare h v op2 (args_get h args name2))
                   | None \<Rightarrow>
                 (case match_simpleComparison b of
                     Some (opr, operand) \<Rightarrow>
                       (let right = trim operand;
                            rightValue = (if startsWith right ''$'' then args_get h args (drop 1 right)
                                          else Plain (parseMaybeLiteral h (JStr right)))
                        in Some (compare h v opr rightValue))
                   | None \<Rightarrow> None)))))"

section \<open>The constraint applier\<close>

text \<open>\<open>resolveConstraintArgument\<close>.\<close>

definition resolveConstraintArgument :: "'n host \<Rightarrow> 'n constraintUsage \<Rightarrow> 'n json" where
  "resolveConstraintArgument h constraint =
     (case callArgs constraint of
        None \<Rightarrow> argument constraint
      | Some as \<Rightarrow>
          if 0 < length as then
            (if length as = 1 then parseMaybeLiteral h (as ! 0)
             else JArr (map (parseMaybeLiteral h) as))
          else argument constraint)"

text \<open>
  \<open>#applyConstraint\<close>. The collector \<open>errors\<close> goes in and comes out: a push is an
  element added at the end.
\<close>

definition applyConstraint ::
  "'n host \<Rightarrow> string \<Rightarrow> 'n constraintUsage \<Rightarrow> 'n json \<Rightarrow> string \<Rightarrow> 'n repository \<Rightarrow>
   ValidationError list \<Rightarrow> 'n scope \<Rightarrow> ValidationError list" where
  "applyConstraint h targetType constraint v p repository errors scope =
     (case getValidator repository targetType (constraint_name constraint) of
        None \<Rightarrow>
          errors @ [newValidationError p
            (''Unknown constraint: '' @ targetType @ ''.'' @ constraint_name constraint)
            ''UnknownConstraint'' ''SemanticError'']
      | Some validator \<Rightarrow>
          (case (if validator_isBuiltin validator then evaluate validator else None) of
             Some native \<Rightarrow>
               if native v (resolveConstraintArgument h constraint) = JBool False then
                 errors @ [newValidationError p
                   (''Constraint failed: '' @ targetType @ ''.'' @ constraint_name constraint)
                   ''ConstraintViolation'' ''ValidationError'']
               else errors
           | None \<Rightarrow>
               if evaluateCustomValidator h validator constraint v scope = Some False then
                 errors @ [newValidationError p
                   (''Constraint failed: '' @ targetType @ ''.'' @ constraint_name constraint)
                   ''ValidatorFailed'' ''ValidationError'']
               else errors))"

section \<open>The structural evaluator\<close>

text \<open>
  The evaluator recurses through named types, which may refer to themselves, so a call
  need not return: in JavaScript the stack runs out. The model counts the named types
  it may still unfold inside one another (\<open>fuel\<close>) and answers \<open>Inl StackExhausted\<close> when
  none is left. The other way a call fails to return a list is a \<open>TypeError\<close>, thrown
  when the code reads a property of \<open>null\<close> or \<open>undefined\<close>.
\<close>

datatype fault = StackExhausted | TypeErrorThrown

text \<open>A \<open>for ... of\<close> loop whose body updates the collector and may fail.\<close>

fun for_each :: "('a \<Rightarrow> 's \<Rightarrow> fault + 's) \<Rightarrow> 'a list \<Rightarrow> 's \<Rightarrow> fault + 's" where
  "for_each f [] s = Inr s"
| "for_each f (x # xs) s = (case f x s of Inl e \<Rightarrow> Inl e | Inr s' \<Rightarrow> for_each f xs s')"

text \<open>\<open>Array.prototype.some\<close>: it stops at the first element that passes.\<close>

fun array_some :: "('a \<Rightarrow> fault + bool) \<Rightarrow> 'a list \<Rightarrow> fault + bool" where
  "array_some f [] = Inr False"
| "array_some f (x # xs) =
     (case f x of Inl e \<Rightarrow> Inl e | Inr b \<Rightarrow> if b then Inr True else array_some f xs)"

lemma for_each_cong [fundef_cong]:
  "xs = ys \<Longrightarrow> s = t \<Longrightarrow> (\<And>x u. x \<in> set ys \<Longrightarrow> f x u = g x u) \<Longrightarrow>
   for_each f xs s = for_each g ys t"
proof (induction ys arbitrary: xs s t)
  case Nil
  then show ?case by simp
next
  case (Cons y ys)
  then show ?case by (auto split: sum.splits)
qed

lemma array_some_cong [fundef_cong]:
  "xs = ys \<Longrightarrow> (\<And>x. x \<in> set ys \<Longrightarrow> f x = g x) \<Longrightarrow> array_some f xs = array_some g ys"
proof (induction ys arbitrary: xs)
  case Nil
  then show ?case by simp
next
  case (Cons y ys)
  then show ?case by (auto split: sum.splits)
qed

text \<open>The decimal digits of an index, as a template literal prints it.\<close>

fun string_of_nat :: "nat \<Rightarrow> string" where
  "string_of_nat n =
     (if n < 10 then [''0123456789'' ! n]
      else string_of_nat (n div 10) @ [''0123456789'' ! (n mod 10)])"

declare string_of_nat.simps [simp del]

text \<open>
  \<open>matched === true ? thenType : matched === false ? elseType : null\<close>
\<close>

definition conditional_branch :: "bool option \<Rightarrow> 'n typeNode \<Rightarrow> 'n typeNode \<Rightarrow> 'n typeNode" where
  "conditional_branch matched thenType elseType =
     (if matched = Some True then thenType
      else if matched = Some False then elseType
      else NullNode)"

text \<open>\<open>scope.parent ?? scope.root\<close>\<close>

definition guard_scope :: "'n scope \<Rightarrow> 'n json" where
  "guard_scope scope = (if nullish (parent scope) then root scope else parent scope)"

text \<open>
  The four private methods, with the arguments in the order of the source after the
  fuel and the host. \<open>validateNamed\<close> takes the two fields it reads of its node, the
  name and the constraints.
\<close>

function validateTypeNode ::
    "nat \<Rightarrow> 'n host \<Rightarrow> 'n typeNode \<Rightarrow> 'n json \<Rightarrow> string \<Rightarrow> 'n repository \<Rightarrow>
     ValidationError list \<Rightarrow> 'n scope \<Rightarrow> fault + ValidationError list"
  and validateAgainstTypeName ::
    "nat \<Rightarrow> 'n host \<Rightarrow> 'n json \<Rightarrow> string \<Rightarrow> string \<Rightarrow> 'n repository \<Rightarrow>
     ValidationError list \<Rightarrow> 'n scope \<Rightarrow> fault + ValidationError list"
  and validateNamed ::
    "nat \<Rightarrow> 'n host \<Rightarrow> string \<Rightarrow> 'n constraintUsage list option \<Rightarrow> 'n json \<Rightarrow> string \<Rightarrow>
     'n repository \<Rightarrow> ValidationError list \<Rightarrow> 'n scope \<Rightarrow> fault + ValidationError list"
  and isValid ::
    "nat \<Rightarrow> 'n host \<Rightarrow> 'n typeNode \<Rightarrow> 'n json \<Rightarrow> 'n repository \<Rightarrow> 'n scope \<Rightarrow> fault + bool"
where
  "validateTypeNode fuel h NullNode v p repository errors scope = Inr errors"
| "validateTypeNode fuel h (PrimitiveNode b) v p repository errors scope = Inr errors"
| "validateTypeNode fuel h (KNamed name constraints) v p repository errors scope =
     validateNamed fuel h name constraints v p repository errors scope"
| "validateTypeNode fuel h (KNullableNamed name) v p repository errors scope =
     (if v = JNull then Inr errors
      else validateAgainstTypeName fuel h v name p repository errors scope)"
| "validateTypeNode fuel h (KNullable inner) v p repository errors scope =
     (if v = JNull then Inr errors
      else validateTypeNode fuel h inner v p repository errors scope)"
| "validateTypeNode fuel h (KArray itemType constraints) v p repository errors scope =
     (case v of
        JArr items \<Rightarrow>
          for_each
            (\<lambda>i es. validateTypeNode fuel h itemType (items ! i)
                       (p @ ''['' @ string_of_nat i @ '']'') repository es
                       (scope\<lparr>current := items ! i, parent := v\<rparr>))
            [0 ..< length items]
            (foldl (\<lambda>es constraint. applyConstraint h ''Array'' constraint v p repository es scope)
               errors constraints)
      | _ \<Rightarrow> Inr (errors @ [newValidationError p ''Expected array.'' ''TypeMismatch'' ''TypeError'']))"
| "validateTypeNode fuel h (KRecord fieldDefs) v p repository errors scope =
     (if \<not> isObject v then
        Inr (errors @ [newValidationError p ''Expected object.'' ''TypeMismatch'' ''TypeError''])
      else
        for_each
          (\<lambda>field es.
             if \<not> hasOwnProperty v (field_name field) then
               (if optional field \<or> defaultExpr field \<noteq> None then Inr es
                else (case field_type field of
                        NullNode \<Rightarrow> Inl TypeErrorThrown
                      | KAbsent \<Rightarrow> Inr es
                      | _ \<Rightarrow> Inr (es @ [newValidationError (p @ ''.'' @ field_name field)
                                 ''Missing required field.'' ''FieldMissing'' ''ValidationError''])))
             else
               validateTypeNode fuel h (field_type field) (get_property v (field_name field))
                 (p @ ''.'' @ field_name field) repository es
                 (scope\<lparr>current := get_property v (field_name field), parent := v\<rparr>))
          fieldDefs errors)"
| "validateTypeNode fuel h (KDict keyType valueType) v p repository errors scope =
     (case v of
        JObj entries \<Rightarrow>
          for_each
            (\<lambda>(entryKey, entryValue) es.
               case validateTypeNode fuel h keyType (JStr entryKey)
                      (p @ ''.[key:'' @ entryKey @ '']'') repository es
                      (scope\<lparr>current := JStr entryKey, parent := v\<rparr>) of
                 Inl e \<Rightarrow> Inl e
               | Inr es' \<Rightarrow>
                   validateTypeNode fuel h valueType entryValue (p @ ''.'' @ entryKey)
                     repository es' (scope\<lparr>current := entryValue, parent := v\<rparr>))
            entries errors
      | _ \<Rightarrow> Inr (errors @ [newValidationError p ''Expected object/dict.'' ''TypeMismatch''
                    ''TypeError'']))"
| "validateTypeNode fuel h (KUnion members) v p repository errors scope =
     (case array_some (\<lambda>member. isValid fuel h member v repository scope) members of
        Inl e \<Rightarrow> Inl e
      | Inr b \<Rightarrow>
          if b then Inr errors
          else Inr (errors @ [newValidationError p ''Value does not match any union member.''
                 ''TypeMismatch'' ''TypeError'']))"
| "validateTypeNode fuel h (KIntersection members) v p repository errors scope =
     for_each (\<lambda>member es. validateTypeNode fuel h member v p repository es scope)
       members errors"
| "validateTypeNode fuel h (KConditional condition thenType elseType) v p repository errors scope =
     (let matched = evaluateCondition h condition (guard_scope scope);
          branch = conditional_branch matched thenType elseType
      in if truthy_node branch then
           validateTypeNode fuel h branch v p repository errors scope
         else
           (case isValid fuel h thenType v repository scope of
              Inl e \<Rightarrow> Inl e
            | Inr b1 \<Rightarrow>
                if b1 then Inr errors
                else (case isValid fuel h elseType v repository scope of
                        Inl e \<Rightarrow> Inl e
                      | Inr b2 \<Rightarrow>
                          if b2 then Inr errors
                          else Inr (errors @ [newValidationError p
                                 ''Value does not match conditional branches.''
                                 ''TypeMismatch'' ''TypeError'']))))"
| "validateTypeNode fuel h (KLiteral lit) v p repository errors scope =
     (if \<not> strict_eq h v lit then
        Inr (errors @ [newValidationError p
               (''Expected literal '' @ json_stringify h lit @ ''.'') ''TypeMismatch'' ''TypeError''])
      else Inr errors)"
| "validateTypeNode fuel h KAbsent v p repository errors scope =
     (if v \<noteq> JUndefined then
        Inr (errors @ [newValidationError p ''Expected field to be absent.''
               ''FieldMustBeAbsent'' ''ValidationError''])
      else Inr errors)"
| "validateTypeNode fuel h (KOther k) v p repository errors scope = Inr errors"
| "validateAgainstTypeName fuel h v typeName p repository errors scope =
     (case getType repository typeName of
        None \<Rightarrow>
          Inr (errors @ [newValidationError p (''Unknown type: '' @ typeName)
                 ''UnknownType'' ''TypeError''])
      | Some typeDefinition \<Rightarrow>
          (case (if type_isBuiltin typeDefinition then matches typeDefinition else None) of
             Some native \<Rightarrow>
               if \<not> native v then
                 Inr (errors @ [newValidationError p (''Expected '' @ typeName @ ''.'')
                        ''TypeMismatch'' ''TypeError''])
               else Inr errors
           | None \<Rightarrow>
               (case fuel of
                  0 \<Rightarrow> Inl StackExhausted
                | Suc fuel' \<Rightarrow>
                    validateTypeNode fuel' h (expr typeDefinition) v p repository errors scope)))"
| "validateNamed fuel h name constraints v p repository errors scope =
     (case validateAgainstTypeName fuel h v name p repository errors scope of
        Inl e \<Rightarrow> Inl e
      | Inr errors' \<Rightarrow>
          Inr (foldl (\<lambda>es constraint. applyConstraint h name constraint v p repository es scope)
                 errors' (case constraints of None \<Rightarrow> [] | Some cs \<Rightarrow> cs)))"
| "isValid fuel h typeNode v repository scope =
     (case validateTypeNode fuel h typeNode v ''$'' repository [] scope of
        Inl e \<Rightarrow> Inl e
      | Inr errors \<Rightarrow> Inr (length errors = 0))"
  by pat_completeness auto


lemma size_member_le: "x \<in> set xs \<Longrightarrow> size x \<le> size_list size xs"
  by (simp add: size_list_estimation')

lemma size_field_type_le: "size (field_type f) \<le> size f"
  by (cases f) simp

lemma size_field_member: "f \<in> set fs \<Longrightarrow> size (field_type f) \<le> size_list size fs"
  using size_member_le [of f fs] size_field_type_le [of f] by linarith

text \<open>
  Every call either descends in the type node or unfolds a named type, which costs
  fuel: the fuel first, then the size of the node.
\<close>

termination validateTypeNode
  apply (relation "inv_image (less_than <*lex*> less_than)
     (case_sum
        (case_sum (\<lambda>(fuel, h, node, r). (fuel, 2 + 2 * size node)) (\<lambda>(fuel, r). (fuel, 0::nat)))
        (case_sum (\<lambda>(fuel, r). (fuel, 1)) (\<lambda>(fuel, h, node, r). (fuel, 3 + 2 * size node))))")
                apply (auto simp: conditional_branch_def dest: size_member_le size_field_member
      split: if_splits)
  done

declare validateAgainstTypeName.simps [simp del]
declare validateNamed.simps [simp del]
declare isValid.simps [simp del]

section \<open>The entry point\<close>

text \<open>\<open>typeof jsonInput === 'string' ? JSON.parse(jsonInput) : jsonInput\<close>\<close>

definition decode_input :: "'n host \<Rightarrow> 'n json \<Rightarrow> string + 'n json" where
  "decode_input h jsonInput = (case jsonInput of JStr s \<Rightarrow> json_parse h s | _ \<Rightarrow> Inr jsonInput)"

text \<open>\<open>validate\<close>; the root type is \<open>None\<close> for \<open>null\<close>.\<close>

definition validate ::
  "nat \<Rightarrow> 'n host \<Rightarrow> 'n json \<Rightarrow> 'n repository \<Rightarrow> string option \<Rightarrow> fault + ValidationError list" where
  "validate fuel h jsonInput repository rootType =
     (case decode_input h jsonInput of
        Inl msg \<Rightarrow>
          Inr [newValidationError ''$'' (''Invalid JSON: '' @ msg) ''InvalidExpression'' ''ParseError'']
      | Inr v \<Rightarrow>
          (case resolveRootType repository rootType of
             Inl msg \<Rightarrow> Inr [newValidationError ''$'' msg ''UnknownType'' ''TypeError'']
           | Inr resolvedRoot \<Rightarrow>
               validateAgainstTypeName fuel h v resolvedRoot ''$'' repository []
                 \<lparr>root = v, current = v, parent = JNull\<rparr>))"

section \<open>The collector as an array in memory\<close>

text \<open>
  In the source the collector is an array: the methods push diagnostics to it, and
  \<open>validate\<close> and \<open>#isValid\<close> each create theirs with \<open>[]\<close>. The evaluator of the previous
  sections passes the content of the collector from call to call. This section keeps
  the arrays where the source has them, in a memory that outlives a call of \<open>validate\<close>:
  an array is known by its address, a new array takes the next free address, a push
  changes the memory at the address of the array, and a call starts in the memory that
  the calls before it have left. The class has no fields and the module no variables;
  the other objects the code creates are never changed once they are made (scopes,
  diagnostics) or are dropped by the function that made them (\<open>args\<close>, regular
  expressions), so the arrays are all the state that a call could leave to the next.
\<close>

record memory =
  arrays :: "nat \<Rightarrow> ValidationError list"
  next_free :: nat

text \<open>\<open>[]\<close>: the memory with a new, empty array at the address \<open>next_free\<close>.\<close>

definition alloc :: "memory \<Rightarrow> memory" where
  "alloc m = m\<lparr>arrays := (arrays m)(next_free m := []), next_free := Suc (next_free m)\<rparr>"

text \<open>\<open>errors.push(e)\<close>, the array \<open>errors\<close> given by its address.\<close>

definition push :: "nat \<Rightarrow> ValidationError \<Rightarrow> memory \<Rightarrow> memory" where
  "push a e m = m\<lparr>arrays := (arrays m)(a := arrays m a @ [e])\<rparr>"

text \<open>\<open>#applyConstraint\<close> on the array at the address \<open>errors\<close>.\<close>

definition applyConstraint_heap ::
  "'n host \<Rightarrow> string \<Rightarrow> 'n constraintUsage \<Rightarrow> 'n json \<Rightarrow> string \<Rightarrow> 'n repository \<Rightarrow>
   nat \<Rightarrow> 'n scope \<Rightarrow> memory \<Rightarrow> memory" where
  "applyConstraint_heap h targetType constraint v p repository errors scope m =
     (case getValidator repository targetType (constraint_name constraint) of
        None \<Rightarrow>
          push errors (newValidationError p
            (''Unknown constraint: '' @ targetType @ ''.'' @ constraint_name constraint)
            ''UnknownConstraint'' ''SemanticError'') m
      | Some validator \<Rightarrow>
          (case (if validator_isBuiltin validator then evaluate validator else None) of
             Some native \<Rightarrow>
               if native v (resolveConstraintArgument h constraint) = JBool False then
                 push errors (newValidationError p
                   (''Constraint failed: '' @ targetType @ ''.'' @ constraint_name constraint)
                   ''ConstraintViolation'' ''ValidationError'') m
               else m
           | None \<Rightarrow>
               if evaluateCustomValidator h validator constraint v scope = Some False then
                 push errors (newValidationError p
                   (''Constraint failed: '' @ targetType @ ''.'' @ constraint_name constraint)
                   ''ValidatorFailed'' ''ValidationError'') m
               else m))"

text \<open>\<open>Array.prototype.some\<close> with a callback that changes the memory.\<close>

fun array_some_heap :: "('a \<Rightarrow> 's \<Rightarrow> fault + bool \<times> 's) \<Rightarrow> 'a list \<Rightarrow> 's \<Rightarrow> fault + bool \<times> 's" where
  "array_some_heap f [] m = Inr (False, m)"
| "array_some_heap f (x # xs) m =
     (case f x m of
        Inl e \<Rightarrow> Inl e
      | Inr r \<Rightarrow> if fst r then Inr (True, snd r) else array_some_heap f xs (snd r))"

lemma array_some_heap_cong [fundef_cong]:
  "xs = ys \<Longrightarrow> m = n \<Longrightarrow> (\<And>x u. x \<in> set ys \<Longrightarrow> f x u = g x u) \<Longrightarrow>
   array_some_heap f xs m = array_some_heap g ys n"
proof (induction ys arbitrary: xs m n)
  case Nil
  then show ?case by simp
next
  case (Cons y ys)
  then show ?case by (auto split: sum.splits)
qed

text \<open>
  The four private methods on the memory. \<open>#isValid\<close> creates its array, evaluates into it
  and reads its length; the array stays in the memory, where nothing refers to it any
  more.
\<close>

function validateTypeNode_heap ::
    "nat \<Rightarrow> 'n host \<Rightarrow> 'n typeNode \<Rightarrow> 'n json \<Rightarrow> string \<Rightarrow> 'n repository \<Rightarrow>
     nat \<Rightarrow> 'n scope \<Rightarrow> memory \<Rightarrow> fault + memory"
  and validateAgainstTypeName_heap ::
    "nat \<Rightarrow> 'n host \<Rightarrow> 'n json \<Rightarrow> string \<Rightarrow> string \<Rightarrow> 'n repository \<Rightarrow>
     nat \<Rightarrow> 'n scope \<Rightarrow> memory \<Rightarrow> fault + memory"
  and validateNamed_heap ::
    "nat \<Rightarrow> 'n host \<Rightarrow> string \<Rightarrow> 'n constraintUsage list option \<Rightarrow> 'n json \<Rightarrow> string \<Rightarrow>
     'n repository \<Rightarrow> nat \<Rightarrow> 'n scope \<Rightarrow> memory \<Rightarrow> fault + memory"
  and isValid_heap ::
    "nat \<Rightarrow> 'n host \<Rightarrow> 'n typeNode \<Rightarrow> 'n json \<Rightarrow> 'n repository \<Rightarrow> 'n scope \<Rightarrow> memory \<Rightarrow>
     fault + bool \<times> memory"
where
  "validateTypeNode_heap fuel h NullNode v p repository errors scope m = Inr m"
| "validateTypeNode_heap fuel h (PrimitiveNode b) v p repository errors scope m = Inr m"
| "validateTypeNode_heap fuel h (KNamed name constraints) v p repository errors scope m =
     validateNamed_heap fuel h name constraints v p repository errors scope m"
| "validateTypeNode_heap fuel h (KNullableNamed name) v p repository errors scope m =
     (if v = JNull then Inr m
      else validateAgainstTypeName_heap fuel h v name p repository errors scope m)"
| "validateTypeNode_heap fuel h (KNullable inner) v p repository errors scope m =
     (if v = JNull then Inr m
      else validateTypeNode_heap fuel h inner v p repository errors scope m)"
| "validateTypeNode_heap fuel h (KArray itemType constraints) v p repository errors scope m =
     (case v of
        JArr items \<Rightarrow>
          for_each
            (\<lambda>i m'. validateTypeNode_heap fuel h itemType (items ! i)
                       (p @ ''['' @ string_of_nat i @ '']'') repository errors
                       (scope\<lparr>current := items ! i, parent := v\<rparr>) m')
            [0 ..< length items]
            (foldl (\<lambda>m' constraint.
                      applyConstraint_heap h ''Array'' constraint v p repository errors scope m')
               m constraints)
      | _ \<Rightarrow> Inr (push errors
                    (newValidationError p ''Expected array.'' ''TypeMismatch'' ''TypeError'') m))"
| "validateTypeNode_heap fuel h (KRecord fieldDefs) v p repository errors scope m =
     (if \<not> isObject v then
        Inr (push errors
               (newValidationError p ''Expected object.'' ''TypeMismatch'' ''TypeError'') m)
      else
        for_each
          (\<lambda>field m'.
             if \<not> hasOwnProperty v (field_name field) then
               (if optional field \<or> defaultExpr field \<noteq> None then Inr m'
                else (case field_type field of
                        NullNode \<Rightarrow> Inl TypeErrorThrown
                      | KAbsent \<Rightarrow> Inr m'
                      | _ \<Rightarrow> Inr (push errors
                                 (newValidationError (p @ ''.'' @ field_name field)
                                    ''Missing required field.'' ''FieldMissing'' ''ValidationError'')
                                 m')))
             else
               validateTypeNode_heap fuel h (field_type field) (get_property v (field_name field))
                 (p @ ''.'' @ field_name field) repository errors
                 (scope\<lparr>current := get_property v (field_name field), parent := v\<rparr>) m')
          fieldDefs m)"
| "validateTypeNode_heap fuel h (KDict keyType valueType) v p repository errors scope m =
     (case v of
        JObj entries \<Rightarrow>
          for_each
            (\<lambda>(entryKey, entryValue) m'.
               case validateTypeNode_heap fuel h keyType (JStr entryKey)
                      (p @ ''.[key:'' @ entryKey @ '']'') repository errors
                      (scope\<lparr>current := JStr entryKey, parent := v\<rparr>) m' of
                 Inl e \<Rightarrow> Inl e
               | Inr m'' \<Rightarrow>
                   validateTypeNode_heap fuel h valueType entryValue (p @ ''.'' @ entryKey)
                     repository errors (scope\<lparr>current := entryValue, parent := v\<rparr>) m'')
            entries m
      | _ \<Rightarrow> Inr (push errors
                    (newValidationError p ''Expected object/dict.'' ''TypeMismatch'' ''TypeError'')
                    m))"
| "validateTypeNode_heap fuel h (KUnion members) v p repository errors scope m =
     (case array_some_heap (\<lambda>member m'. isValid_heap fuel h member v repository scope m')
             members m of
        Inl e \<Rightarrow> Inl e
      | Inr r \<Rightarrow>
          if fst r then Inr (snd r)
          else Inr (push errors
                      (newValidationError p ''Value does not match any union member.''
                         ''TypeMismatch'' ''TypeError'') (snd r)))"
| "validateTypeNode_heap fuel h (KIntersection members) v p repository errors scope m =
     for_each (\<lambda>member m'. validateTypeNode_heap fuel h member v p repository errors scope m')
       members m"
| "validateTypeNode_heap fuel h (KConditional condition thenType elseType) v p repository errors
       scope m =
     (let matched = evaluateCondition h condition (guard_scope scope);
          branch = conditional_branch matched thenType elseType
      in if truthy_node branch then
           validateTypeNode_heap fuel h branch v p repository errors scope m
         else
           (case isValid_heap fuel h thenType v repository scope m of
              Inl e \<Rightarrow> Inl e
            | Inr r \<Rightarrow>
                if fst r then Inr (snd r)
                else (case isValid_heap fuel h elseType v repository scope (snd r) of
                        Inl e \<Rightarrow> Inl e
                      | Inr r' \<Rightarrow>
                          if fst r' then Inr (snd r')
                          else Inr (push errors
                                      (newValidationError p
                                         ''Value does not match conditional branches.''
                                         ''TypeMismatch'' ''TypeError'') (snd r')))))"
| "validateTypeNode_heap fuel h (KLiteral lit) v p repository errors scope m =
     (if \<not> strict_eq h v lit then
        Inr (push errors
               (newValidationError p
                  (''Expected literal '' @ json_stringify h lit @ ''.'') ''TypeMismatch'' ''TypeError'')
               m)
      else Inr m)"
| "validateTypeNode_heap fuel h KAbsent v p repository errors scope m =
     (if v \<noteq> JUndefined then
        Inr (push errors
               (newValidationError p ''Expected field to be absent.''
                  ''FieldMustBeAbsent'' ''ValidationError'') m)
      else Inr m)"
| "validateTypeNode_heap fuel h (KOther k) v p repository errors scope m = Inr m"
| "validateAgainstTypeName_heap fuel h v typeName p repository errors scope m =
     (case getType repository typeName of
        None \<Rightarrow>
          Inr (push errors
                 (newValidationError p (''Unknown type: '' @ typeName) ''UnknownType'' ''TypeError'')
                 m)
      | Some typeDefinition \<Rightarrow>
          (case (if type_isBuiltin typeDefinition then matches typeDefinition else None) of
             Some native \<Rightarrow>
               if \<not> native v then
                 Inr (push errors
                        (newValidationError p (''Expected '' @ typeName @ ''.'')
                           ''TypeMismatch'' ''TypeError'') m)
               else Inr m
           | None \<Rightarrow>
               (case fuel of
                  0 \<Rightarrow> Inl StackExhausted
                | Suc fuel' \<Rightarrow>
                    validateTypeNode_heap fuel' h (expr typeDefinition) v p repository errors
                      scope m)))"
| "validateNamed_heap fuel h name constraints v p repository errors scope m =
     (case validateAgainstTypeName_heap fuel h v name p repository errors scope m of
        Inl e \<Rightarrow> Inl e
      | Inr m' \<Rightarrow>
          Inr (foldl (\<lambda>m'' constraint.
                        applyConstraint_heap h name constraint v p repository errors scope m'')
                 m' (case constraints of None \<Rightarrow> [] | Some cs \<Rightarrow> cs)))"
| "isValid_heap fuel h typeNode v repository scope m =
     (case validateTypeNode_heap fuel h typeNode v ''$'' repository (next_free m) scope (alloc m) of
        Inl e \<Rightarrow> Inl e
      | Inr m' \<Rightarrow> Inr (length (arrays m' (next_free m)) = 0, m'))"
  by pat_completeness auto

termination validateTypeNode_heap
  apply (relation "inv_image (less_than <*lex*> less_than)
     (case_sum
        (case_sum (\<lambda>(fuel, h, node, r). (fuel, 2 + 2 * size node)) (\<lambda>(fuel, r). (fuel, 0::nat)))
        (case_sum (\<lambda>(fuel, r). (fuel, 1)) (\<lambda>(fuel, h, node, r). (fuel, 3 + 2 * size node))))")
                apply (auto simp: conditional_branch_def dest: size_member_le size_field_member
      split: if_splits)
  done


declare validateAgainstTypeName_heap.simps [simp del]
declare validateNamed_heap.simps [simp del]
declare isValid_heap.simps [simp del]

text \<open>
  \<open>validate\<close> on the memory. Each of its three exits returns an array created in this
  call; the result is the content of that array and the memory the call leaves.
\<close>

definition validate_heap ::
  "nat \<Rightarrow> 'n host \<Rightarrow> 'n json \<Rightarrow> 'n repository \<Rightarrow> string option \<Rightarrow> memory \<Rightarrow>
   fault + ValidationError list \<times> memory" where
  "validate_heap fuel h jsonInput repository rootType m =
     (case decode_input h jsonInput of
        Inl msg \<Rightarrow>
          (let m' = push (next_free m)
                      (newValidationError ''$'' (''Invalid JSON: '' @ msg)
                         ''InvalidExpression'' ''ParseError'') (alloc m)
           in Inr (arrays m' (next_free m), m'))
      | Inr v \<Rightarrow>
          (case resolveRootType repository rootType of
             Inl msg \<Rightarrow>
               (let m' = push (next_free m)
                           (newValidationError ''$'' msg ''UnknownType'' ''TypeError'') (alloc m)
                in Inr (arrays m' (next_free m), m'))
           | Inr resolvedRoot \<Rightarrow>
               (case validateAgainstTypeName_heap fuel h v resolvedRoot ''$'' repository
                       (next_free m) \<lparr>root = v, current = v, parent = JNull\<rparr> (alloc m) of
                  Inl e \<Rightarrow> Inl e
                | Inr m' \<Rightarrow> Inr (arrays m' (next_free m), m'))))"

text \<open>What the caller sees of a call: the list it returns, or the exception.\<close>

definition returned :: "fault + ValidationError list \<times> memory \<Rightarrow> fault + ValidationError list" where
  "returned r = (case r of Inl e \<Rightarrow> Inl e | Inr x \<Rightarrow> Inr (fst x))"

section \<open>The claims in the words of the specification\<close>

text \<open>
  A validator body that cannot be parsed: it is missing or empty, or its text has none of
  the four shapes the interpreter knows.
\<close>

definition unrecognised_body :: "string option \<Rightarrow> bool" where
  "unrecognised_body b =
     (case b of
        None \<Rightarrow> True
      | Some text \<Rightarrow>
          text = []
          \<or> (match_regexNegation (trim text) = None \<and> match_regexMatch (trim text) = None
              \<and> match_rangeAnd (trim text) = None \<and> match_simpleComparison (trim text) = None))"

text \<open>
  The collector after a call that was given \<open>errors\<close>, from the outcome of the same call
  given the empty collector: nothing is removed and nothing is inserted before the end.
\<close>

definition appended ::
  "ValidationError list \<Rightarrow> fault + ValidationError list \<Rightarrow> fault + ValidationError list" where
  "appended errors r = (case r of Inl e \<Rightarrow> Inl e | Inr new \<Rightarrow> Inr (errors @ new))"

text \<open>
  Record fields in the words of the specification: a declared field whose key is absent
  is skipped when it is optional, has a default expression, or is declared \<open>Absent\<close>;
  otherwise it is reported missing at \<open>path.name\<close>; a field whose key is present is
  evaluated against its declared type.
\<close>

definition skipped_when_absent :: "'n fieldDef \<Rightarrow> bool" where
  "skipped_when_absent f = (optional f \<or> defaultExpr f \<noteq> None \<or> field_type f = KAbsent)"

definition field_missing :: "string \<Rightarrow> 'n fieldDef \<Rightarrow> ValidationError" where
  "field_missing p f =
     \<lparr>path = p @ ''.'' @ field_name f, message = ''Missing required field.'',
      code = ''FieldMissing'', category = ''ValidationError''\<rparr>"

definition record_field ::
  "nat \<Rightarrow> 'n host \<Rightarrow> (string \<times> 'n json) list \<Rightarrow> string \<Rightarrow> 'n repository \<Rightarrow> 'n scope \<Rightarrow>
   'n fieldDef \<Rightarrow> ValidationError list \<Rightarrow> fault + ValidationError list" where
  "record_field fuel h kvs p repository scope f es =
     (case map_of kvs (field_name f) of
        None \<Rightarrow> Inr (if skipped_when_absent f then es else es @ [field_missing p f])
      | Some w \<Rightarrow>
          validateTypeNode fuel h (field_type f) w (p @ ''.'' @ field_name f) repository es
            (scope\<lparr>current := w, parent := JObj kvs\<rparr>))"

text \<open>
  A guard expression of the form \<open>dotted.path <op> literal\<close>: identifiers joined by
  dots, white space, \<open>=\<close> or \<open>!=\<close>, white space, and a literal that is not empty and
  does not start with white space.
\<close>

definition is_identifier :: "string \<Rightarrow> bool" where
  "is_identifier s = (case s of [] \<Rightarrow> False | c # r \<Rightarrow> ident_start c \<and> list_all ident_char r)"

fun dotted_path :: "string list \<Rightarrow> string" where
  "dotted_path [] = []"
| "dotted_path [s] = s"
| "dotted_path (s # t # ts) = s @ ''.'' @ dotted_path (t # ts)"

definition guard_form :: "string list \<Rightarrow> string \<Rightarrow> string \<Rightarrow> string \<Rightarrow> string \<Rightarrow> bool" where
  "guard_form segments ws1 opr ws2 literal =
     (segments \<noteq> [] \<and> list_all is_identifier segments \<and> list_all is_ws ws1 \<and> list_all is_ws ws2
      \<and> (opr = ''='' \<or> opr = ''!='') \<and> literal \<noteq> [] \<and> \<not> is_ws (hd literal))"

text \<open>
  Literals in the words of the specification: the texts that match
  \<open>-?\d+(\.\d+)?\<close>; a text in single or double quotes, which has an opening and a
  closing quote; and the text with its backslash escapes decoded (a backslash that
  nothing follows is dropped).
\<close>

definition decimal_literal :: "string \<Rightarrow> bool" where
  "decimal_literal t =
     (\<exists>sgn whole frac. t = sgn @ whole @ frac \<and> (sgn = [] \<or> sgn = ''-'')
        \<and> whole \<noteq> [] \<and> list_all is_digit whole
        \<and> (frac = [] \<or> (\<exists>ds. frac = CHR ''.'' # ds \<and> ds \<noteq> [] \<and> list_all is_digit ds)))"

definition quoted :: "string \<Rightarrow> bool" where
  "quoted t = (\<exists>q inner. (q = dquote \<or> q = squote) \<and> t = q # inner @ [q])"

fun unescape :: "string \<Rightarrow> string" where
  "unescape [] = []"
| "unescape [c] = (if c = backslash then [] else [c])"
| "unescape (c # d # r) =
     (if c = backslash then
        (if d = CHR ''n'' then CHR 0x0A else if d = CHR ''r'' then CHR 0x0D
         else if d = CHR ''t'' then CHR 0x09 else d) # unescape r
      else c # unescape (d # r))"

text \<open>
  Literal coercion in the words of the specification: a text is trimmed; \<open>true\<close>,
  \<open>false\<close> and \<open>null\<close> give the boolean and \<open>null\<close>; a decimal literal gives its number;
  a quoted text gives the enclosed text with its escapes decoded; any other text gives
  the trimmed text; what is not a text is left as it is.
\<close>

definition literal_coercion :: "'n host \<Rightarrow> 'n json \<Rightarrow> 'n json" where
  "literal_coercion h v =
     (case v of
        JStr s \<Rightarrow>
          (let t = trim s in
           if t = ''true'' then JBool True
           else if t = ''false'' then JBool False
           else if t = ''null'' then JNull
           else if decimal_literal t then JNum (to_number h t)
           else if quoted t then JStr (unescape (butlast (tl t)))
           else JStr t)
      | _ \<Rightarrow> v)"

text \<open>
  The resolved argument of a constraint in the words of the specification: a single call
  argument literal-coerced, several call arguments each coerced, in a list in their
  order, and without call arguments the raw argument.
\<close>

definition resolved_argument :: "'n host \<Rightarrow> 'n constraintUsage \<Rightarrow> 'n json" where
  "resolved_argument h constraint =
     (case callArgs constraint of
        Some [a] \<Rightarrow> literal_coercion h a
      | Some (a # b # as) \<Rightarrow> JArr (map (literal_coercion h) (a # b # as))
      | _ \<Rightarrow> argument constraint)"

text \<open>A text that, trimmed, is one quote character and nothing else.\<close>

definition lone_quote :: "'n json \<Rightarrow> bool" where
  "lone_quote a = (case a of JStr s \<Rightarrow> trim s = [dquote] \<or> trim s = [squote] | _ \<Rightarrow> False)"


text \<open>
  The two evaluators compared. An evaluation into the array at address \<open>a\<close>, started in
  the memory \<open>m\<close>, agrees with an outcome \<open>r\<close> of the evaluator that passes the collector
  along: both throw the same, or the array holds the list of \<open>r\<close> in the memory left,
  where no address has been given up and every other array that \<open>m\<close> held is as it was.
  For \<open>#isValid\<close>, which has no collector of the caller, every array that \<open>m\<close> held is
  as it was.
\<close>

definition untouched :: "nat \<Rightarrow> memory \<Rightarrow> memory \<Rightarrow> bool" where
  "untouched a m m' =
     (next_free m \<le> next_free m' \<and> (\<forall>b<next_free m. b \<noteq> a \<longrightarrow> arrays m' b = arrays m b))"

definition simulates ::
  "nat \<Rightarrow> memory \<Rightarrow> fault + ValidationError list \<Rightarrow> fault + memory \<Rightarrow> bool" where
  "simulates a m r r' =
     (case r of
        Inl e \<Rightarrow> r' = Inl e
      | Inr es \<Rightarrow> (\<exists>m'. r' = Inr m' \<and> arrays m' a = es \<and> untouched a m m'))"

definition preserved :: "memory \<Rightarrow> memory \<Rightarrow> bool" where
  "preserved m m' =
     (next_free m \<le> next_free m' \<and> (\<forall>b<next_free m. arrays m' b = arrays m b))"

definition simulates_valid :: "memory \<Rightarrow> fault + bool \<Rightarrow> fault + bool \<times> memory \<Rightarrow> bool" where
  "simulates_valid m r r' =
     (case r of
        Inl e \<Rightarrow> r' = Inl e
      | Inr b \<Rightarrow> (\<exists>m'. r' = Inr (b, m') \<and> preserved m m'))"

section \<open>A sample host and schema\<close>

text \<open>
  A host over the integers and a small repository in the manner of the test suite: two
  builtin types, a record type \<open>Root\<close> with a required field, a builtin and two custom
  validators. The examples below run on them.
\<close>

definition sample_host :: "int host" where
  "sample_host =
     \<lparr>json_parse = (\<lambda>s. if s = ''{}'' then Inr (JObj []) else Inl ''Unexpected token''),
      json_stringify = (\<lambda>v. case v of JStr s \<Rightarrow> [dquote] @ s @ [dquote] | _ \<Rightarrow> ''null''),
      to_number = (\<lambda>s. if s = ''1'' then 1 else 0),
      num_eq = (\<lambda>a b. a = b),
      js_lt = (\<lambda>a b. case (a, b) of (JNum x, JNum y) \<Rightarrow> x < y | _ \<Rightarrow> False),
      js_gt = (\<lambda>a b. case (a, b) of (JNum x, JNum y) \<Rightarrow> x > y | _ \<Rightarrow> False),
      js_le = (\<lambda>a b. case (a, b) of (JNum x, JNum y) \<Rightarrow> x \<le> y | _ \<Rightarrow> False),
      js_ge = (\<lambda>a b. case (a, b) of (JNum x, JNum y) \<Rightarrow> x \<ge> y | _ \<Rightarrow> False),
      to_string = (\<lambda>v. case v of JStr s \<Rightarrow> s | _ \<Rightarrow> []),
      regexp_test = (\<lambda>pattern flags subject. None),
      prototype_get = (\<lambda>start name.
        case (case start of Some (JObj kvs) \<Rightarrow> map_of kvs name | _ \<Rightarrow> None) of
          Some w \<Rightarrow> Plain w
        | None \<Rightarrow>
            if name = ''__proto__'' then
              (case start of Some v \<Rightarrow> Plain v | None \<Rightarrow> HostObject ''[object Object]'')
            else if name \<in> set [''constructor'', ''toString'', ''valueOf'', ''hasOwnProperty'']
            then HostObject (''function '' @ name @ ''() { [native code] }'')
            else Plain JUndefined)\<rparr>"

definition sample_String :: "int typeDefinition" where
  "sample_String =
     \<lparr>type_isBuiltin = True,
      matches = Some (\<lambda>v. case v of JStr s \<Rightarrow> True | _ \<Rightarrow> False),
      expr = NullNode\<rparr>"

definition sample_Int :: "int typeDefinition" where
  "sample_Int =
     \<lparr>type_isBuiltin = True,
      matches = Some (\<lambda>v. case v of JNum n \<Rightarrow> True | _ \<Rightarrow> False),
      expr = NullNode\<rparr>"

definition sample_Root :: "int typeDefinition" where
  "sample_Root =
     \<lparr>type_isBuiltin = False, matches = None,
      expr = KRecord [FieldDef ''title'' (KNamed ''String'' (Some [])) False None]\<rparr>"

definition sample_min :: "int validatorDefinition" where
  "sample_min =
     \<lparr>validator_isBuiltin = True,
      evaluate = Some (\<lambda>v a. case (v, a) of (JNum x, JNum y) \<Rightarrow> JBool (y \<le> x) | _ \<Rightarrow> JBool False),
      body = None, params = []\<rparr>"

definition sample_positive :: "int validatorDefinition" where
  "sample_positive =
     \<lparr>validator_isBuiltin = False, evaluate = None,
      body = Some ''this > 0'', params = []\<rparr>"

definition sample_opaque :: "int validatorDefinition" where
  "sample_opaque =
     \<lparr>validator_isBuiltin = False, evaluate = None,
      body = Some ''this is odd'', params = []\<rparr>"

definition sample_repository :: "int repository" where
  "sample_repository =
     \<lparr>resolveRootType = (\<lambda>r. case r of None \<Rightarrow> Inr ''Root''
          | Some n \<Rightarrow> if n \<in> set [''Root'', ''String'', ''Int''] then Inr n
                      else Inl (''Unknown root type: '' @ n)),
      getType = (\<lambda>n. if n = ''String'' then Some sample_String
                     else if n = ''Int'' then Some sample_Int
                     else if n = ''Root'' then Some sample_Root else None),
      getValidator = (\<lambda>t c. if t = ''Int'' \<and> c = ''min'' then Some sample_min
                           else if t = ''Int'' \<and> c = ''positive'' then Some sample_positive
                           else if t = ''Int'' \<and> c = ''odd'' then Some sample_opaque
                           else None)\<rparr>"

definition sample_scope :: "int json \<Rightarrow> int scope" where
  "sample_scope v = \<lparr>root = v, current = v, parent = JNull\<rparr>"

definition usage :: "string \<Rightarrow> int json list option \<Rightarrow> int constraintUsage" where
  "usage n as = \<lparr>constraint_name = n, callArgs = as, argument = JNull\<rparr>"

text \<open>
  A schema with a nested record type, and a document that violates it in six places.
\<close>

definition sample_Post :: "int typeDefinition" where
  "sample_Post =
     \<lparr>type_isBuiltin = False, matches = None,
      expr = KRecord
        [FieldDef ''id'' (KNamed ''Int'' (Some [usage ''min'' (Some [JStr ''1''])])) False None,
         FieldDef ''title'' (KNamed ''String'' None) False None,
         FieldDef ''author'' (KNamed ''Person'' None) False None,
         FieldDef ''rating'' (KUnion [KNamed ''Int'' None, KLiteral (JStr ''none'')]) False None,
         FieldDef ''tags'' (KArray (KNamed ''String'' None) []) False None]\<rparr>"

definition blog_repository :: "int repository" where
  "blog_repository =
     \<lparr>resolveRootType = (\<lambda>r. case r of None \<Rightarrow> Inr ''Post''
          | Some n \<Rightarrow> if n \<in> set [''Post'', ''String'', ''Int''] then Inr n
                      else Inl (''Unknown root type: '' @ n)),
      getType = (\<lambda>n. if n = ''String'' then Some sample_String
                     else if n = ''Int'' then Some sample_Int
                     else if n = ''Post'' then Some sample_Post else None),
      getValidator = (\<lambda>t c. if t = ''Int'' \<and> c = ''min'' then Some sample_min else None)\<rparr>"

definition sample_post :: "int json" where
  "sample_post =
     JObj [(''id'', JNum 0), (''author'', JStr ''ann''), (''rating'', JBool True),
           (''tags'', JArr [JStr ''a'', JNum 7, JBool True])]"

definition post_diagnostics :: "ValidationError list" where
  "post_diagnostics =
     [\<lparr>path = ''$.id'', message = ''Constraint failed: Int.min'',
        code = ''ConstraintViolation'', category = ''ValidationError''\<rparr>,
      \<lparr>path = ''$.title'', message = ''Missing required field.'',
        code = ''FieldMissing'', category = ''ValidationError''\<rparr>,
      \<lparr>path = ''$.author'', message = ''Unknown type: Person'',
        code = ''UnknownType'', category = ''TypeError''\<rparr>,
      \<lparr>path = ''$.rating'', message = ''Value does not match any union member.'',
        code = ''TypeMismatch'', category = ''TypeError''\<rparr>,
      \<lparr>path = ''$.tags[1]'', message = ''Expected String.'',
        code = ''TypeMismatch'', category = ''TypeError''\<rparr>,
      \<lparr>path = ''$.tags[2]'', message = ''Expected String.'',
        code = ''TypeMismatch'', category = ''TypeError''\<rparr>]"

text \<open>
  Two memories: one in which nothing has been created yet, and one in which earlier
  calls have left five arrays.
\<close>

definition empty_memory :: memory where
  "empty_memory = \<lparr>arrays = (\<lambda>a. []), next_free = 0\<rparr>"

definition used_memory :: memory where
  "used_memory =
     \<lparr>arrays = (\<lambda>a. [\<lparr>path = ''$'', message = ''Expected Int.'', code = ''TypeMismatch'',
                          category = ''TypeError''\<rparr>]),
      next_free = 5\<rparr>"

text \<open>
  A builtin validator that accepts a value identical to its argument, and a custom
  validator whose parameter has the name of a member of \<open>Object.prototype\<close>.
\<close>

definition equals_predicate :: "int json \<Rightarrow> int json \<Rightarrow> int json" where
  "equals_predicate v a = JBool (v = a)"

definition sample_equals :: "int validatorDefinition" where
  "sample_equals =
     \<lparr>validator_isBuiltin = True, evaluate = Some equals_predicate, body = None, params = []\<rparr>"

definition sample_below :: "int validatorDefinition" where
  "sample_below =
     \<lparr>validator_isBuiltin = False, evaluate = None, body = Some ''this <= $__proto__'',
      params = [\<lparr>param_name = ''__proto__'', param_defaultExpr = Some ''1''\<rparr>]\<rparr>"

definition constraint_repository :: "int repository" where
  "constraint_repository =
     \<lparr>resolveRootType = (\<lambda>r. Inl ''No root type''),
      getType = (\<lambda>n. None),
      getValidator = (\<lambda>t c. if t = ''String'' \<and> c = ''equals'' then Some sample_equals
                           else if t = ''Int'' \<and> c = ''below'' then Some sample_below
                           else None)\<rparr>"

section \<open>Properties\<close>

subsection \<open>Nodes that are no type nodes\<close>

text \<open>
  Claim C10. For every value and scope, \<open>validateTypeNode\<close> returns the collector as it
  received it, and throws nothing, when the node is \<open>null\<close>, is not an object, or is an
  object whose kind is none of the eleven handled kinds.
\<close>

theorem validateTypeNode_accepts_non_nodes:
  "validateTypeNode fuel h NullNode v p repository errors scope = Inr errors
   \<and> validateTypeNode fuel h (PrimitiveNode b) v p repository errors scope = Inr errors
   \<and> (k \<notin> set handled_kinds \<longrightarrow>
        validateTypeNode fuel h (KOther k) v p repository errors scope = Inr errors)"
  by simp

theorem validateTypeNode_accepts_non_nodes_witness:
  "validateTypeNode 0 sample_host NullNode (JNum 1) ''$'' sample_repository []
       (sample_scope (JNum 1)) = Inr []
   \<and> validateTypeNode 0 sample_host (PrimitiveNode True) (JNum 1) ''$'' sample_repository []
       (sample_scope (JNum 1)) = Inr []
   \<and> ''tuple'' \<notin> set handled_kinds
   \<and> validateTypeNode 0 sample_host (KOther ''tuple'') (JNum 1) ''$'' sample_repository []
       (sample_scope (JNum 1)) = Inr []"
  using validateTypeNode_accepts_non_nodes [where fuel = 0 and h = sample_host and v = "JNum 1"
      and p = "''$''" and repository = sample_repository and errors = "[]"
      and scope = "sample_scope (JNum 1)" and b = True and k = "''tuple''"]
  by (simp add: handled_kinds_def)

subsection \<open>Constraints\<close>

text \<open>
  Claim C9. A named node applies every attached constraint to the value after the type
  check, whatever the type check appended: also after \<open>UnknownType\<close> for a name that does
  not resolve, and after \<open>TypeMismatch\<close> from a builtin type. The type error and the
  constraint diagnostics are then in the same list at the same path.
\<close>

theorem validateNamed_applies_every_constraint:
  "(validateAgainstTypeName fuel h v name p repository errors scope = Inr errors' \<longrightarrow>
      validateTypeNode fuel h (KNamed name constraints) v p repository errors scope =
        Inr (foldl (\<lambda>es constraint. applyConstraint h name constraint v p repository es scope)
               errors' (case constraints of None \<Rightarrow> [] | Some cs \<Rightarrow> cs)))
   \<and> (getType repository name = None \<longrightarrow>
      validateTypeNode fuel h (KNamed name (Some cs)) v p repository errors scope =
        Inr (foldl (\<lambda>es constraint. applyConstraint h name constraint v p repository es scope)
               (errors @ [\<lparr>path = p, message = ''Unknown type: '' @ name, code = ''UnknownType'',
                            category = ''TypeError''\<rparr>])
               cs))
   \<and> (getType repository name = Some td \<and> type_isBuiltin td \<and> matches td = Some native
        \<and> \<not> native v \<longrightarrow>
      validateTypeNode fuel h (KNamed name (Some cs)) v p repository errors scope =
        Inr (foldl (\<lambda>es constraint. applyConstraint h name constraint v p repository es scope)
               (errors @ [\<lparr>path = p, message = ''Expected '' @ name @ ''.'', code = ''TypeMismatch'',
                            category = ''TypeError''\<rparr>])
               cs))"
  by (simp add: validateNamed.simps validateAgainstTypeName.simps newValidationError_def)

theorem validateNamed_applies_every_constraint_witness:
  "getType sample_repository ''Money'' = None
   \<and> validateTypeNode 0 sample_host (KNamed ''Money'' (Some [usage ''min'' (Some [JStr ''1''])]))
        (JNum 0) ''$'' sample_repository [] (sample_scope (JNum 0))
      = Inr [\<lparr>path = ''$'', message = ''Unknown type: Money'', code = ''UnknownType'',
               category = ''TypeError''\<rparr>,
             \<lparr>path = ''$'', message = ''Unknown constraint: Money.min'',
               code = ''UnknownConstraint'', category = ''SemanticError''\<rparr>]
   \<and> getType sample_repository ''Int'' = Some sample_Int
   \<and> type_isBuiltin sample_Int
   \<and> validateTypeNode 0 sample_host
        (KNamed ''Int'' (Some [usage ''min'' (Some [JStr ''1'']), usage ''foo'' None]))
        (JStr ''x'') ''$'' sample_repository [] (sample_scope (JStr ''x''))
      = Inr [\<lparr>path = ''$'', message = ''Expected Int.'', code = ''TypeMismatch'',
               category = ''TypeError''\<rparr>,
             \<lparr>path = ''$'', message = ''Constraint failed: Int.min'',
               code = ''ConstraintViolation'', category = ''ValidationError''\<rparr>,
             \<lparr>path = ''$'', message = ''Unknown constraint: Int.foo'',
               code = ''UnknownConstraint'', category = ''SemanticError''\<rparr>]"
proof -
  let ?num = "\<lambda>v::int json. case v of JNum n \<Rightarrow> True | _ \<Rightarrow> False"
  have h1: "getType sample_repository ''Money'' = None"
    by (simp add: sample_repository_def usage_def)
  have h2: "getType sample_repository ''Int'' = Some sample_Int"
    by (simp add: sample_repository_def usage_def)
  have h2': "type_isBuiltin sample_Int" "matches sample_Int = Some ?num" "\<not> ?num (JStr ''x'')"
    by (simp_all add: sample_Int_def)
  have a1: "applyConstraint sample_host ''Money'' (usage ''min'' (Some [JStr ''1''])) (JNum 0) ''$''
      sample_repository es (sample_scope (JNum 0))
      = es @ [\<lparr>path = ''$'', message = ''Unknown constraint: Money.min'',
               code = ''UnknownConstraint'', category = ''SemanticError''\<rparr>]" for es
    by (simp add: applyConstraint_def sample_repository_def usage_def newValidationError_def)
  have a2: "applyConstraint sample_host ''Int'' (usage ''min'' (Some [JStr ''1''])) (JStr ''x'') ''$''
      sample_repository es (sample_scope (JStr ''x''))
      = es @ [\<lparr>path = ''$'', message = ''Constraint failed: Int.min'',
               code = ''ConstraintViolation'', category = ''ValidationError''\<rparr>]" for es
    by (simp add: applyConstraint_def sample_repository_def usage_def newValidationError_def
        sample_min_def)
  have a3: "applyConstraint sample_host ''Int'' (usage ''foo'' None) (JStr ''x'') ''$''
      sample_repository es (sample_scope (JStr ''x''))
      = es @ [\<lparr>path = ''$'', message = ''Unknown constraint: Int.foo'',
               code = ''UnknownConstraint'', category = ''SemanticError''\<rparr>]" for es
    by (simp add: applyConstraint_def sample_repository_def usage_def newValidationError_def)
  note t = validateNamed_applies_every_constraint [where fuel = 0 and h = sample_host
      and p = "''$''" and repository = sample_repository and errors = "[]"]
  have r1: "validateTypeNode 0 sample_host (KNamed ''Money'' (Some [usage ''min'' (Some [JStr ''1''])]))
        (JNum 0) ''$'' sample_repository [] (sample_scope (JNum 0))
      = Inr [\<lparr>path = ''$'', message = ''Unknown type: Money'', code = ''UnknownType'',
               category = ''TypeError''\<rparr>,
             \<lparr>path = ''$'', message = ''Unknown constraint: Money.min'',
               code = ''UnknownConstraint'', category = ''SemanticError''\<rparr>]"
    using t [where name = "''Money''" and v = "JNum 0" and scope = "sample_scope (JNum 0)"
        and cs = "[usage ''min'' (Some [JStr ''1''])]"] h1
    by (simp add: a1)
  have r2: "validateTypeNode 0 sample_host
        (KNamed ''Int'' (Some [usage ''min'' (Some [JStr ''1'']), usage ''foo'' None]))
        (JStr ''x'') ''$'' sample_repository [] (sample_scope (JStr ''x''))
      = Inr [\<lparr>path = ''$'', message = ''Expected Int.'', code = ''TypeMismatch'',
               category = ''TypeError''\<rparr>,
             \<lparr>path = ''$'', message = ''Constraint failed: Int.min'',
               code = ''ConstraintViolation'', category = ''ValidationError''\<rparr>,
             \<lparr>path = ''$'', message = ''Unknown constraint: Int.foo'',
               code = ''UnknownConstraint'', category = ''SemanticError''\<rparr>]"
    using t [where name = "''Int''" and v = "JStr ''x''" and scope = "sample_scope (JStr ''x'')"
        and cs = "[usage ''min'' (Some [JStr ''1'']), usage ''foo'' None]" and td = sample_Int
        and native = ?num] h2 h2'
    by (simp add: a2 a3)
  show ?thesis
    using h1 h2 h2' r1 r2 by simp
qed

subsection \<open>The collector only grows\<close>

lemma appended_simps [simp]:
  "appended errors (Inl e) = Inl e"
  "appended errors (Inr new) = Inr (errors @ new)"
  by (simp_all add: appended_def)







subsection \<open>More fuel changes nothing\<close>

lemma for_each_more:
  "(\<And>x s. x \<in> set xs \<Longrightarrow> f x s \<noteq> Inl StackExhausted \<Longrightarrow> g x s = f x s) \<Longrightarrow>
   for_each f xs s \<noteq> Inl StackExhausted \<Longrightarrow> for_each g xs s = for_each f xs s"
proof (induction xs arbitrary: s)
  case Nil
  then show ?case by simp
next
  case (Cons x xs)
  have ok: "f x s \<noteq> Inl StackExhausted"
    using Cons.prems(2) by (auto split: sum.splits)
  have same: "g x s = f x s"
    by (rule Cons.prems(1)) (simp_all add: ok)
  show ?case
  proof (cases "f x s")
    case (Inl e)
    then show ?thesis using same by simp
  next
    case (Inr s')
    have "for_each g xs s' = for_each f xs s'"
    proof (rule Cons.IH)
      show "g y t = f y t" if "y \<in> set xs" "f y t \<noteq> Inl StackExhausted" for y t
        by (rule Cons.prems(1)) (simp_all add: that)
      show "for_each f xs s' \<noteq> Inl StackExhausted"
        using Cons.prems(2) Inr by simp
    qed
    then show ?thesis using same Inr by simp
  qed
qed

lemma array_some_more:
  "(\<And>x. x \<in> set xs \<Longrightarrow> f x \<noteq> Inl StackExhausted \<Longrightarrow> g x = f x) \<Longrightarrow>
   array_some f xs \<noteq> Inl StackExhausted \<Longrightarrow> array_some g xs = array_some f xs"
proof (induction xs)
  case Nil
  then show ?case by simp
next
  case (Cons x xs)
  have ok: "f x \<noteq> Inl StackExhausted"
    using Cons.prems(2) by (auto split: sum.splits)
  have same: "g x = f x"
    by (rule Cons.prems(1)) (simp_all add: ok)
  show ?case
  proof (cases "f x")
    case (Inl e)
    then show ?thesis using same by simp
  next
    case (Inr b)
    show ?thesis
    proof (cases b)
      case True
      then show ?thesis using same Inr by simp
    next
      case False
      have "array_some g xs = array_some f xs"
      proof (rule Cons.IH)
        show "g y = f y" if "y \<in> set xs" "f y \<noteq> Inl StackExhausted" for y
          by (rule Cons.prems(1)) (simp_all add: that)
        show "array_some f xs \<noteq> Inl StackExhausted"
          using Cons.prems(2) Inr False by simp
      qed
      then show ?thesis using same Inr False by simp
    qed
  qed
qed

lemma more_fuel:
  shows "\<forall>fuel'. fuel \<le> fuel' \<longrightarrow>
           validateTypeNode fuel h node v p repository errors scope \<noteq> Inl StackExhausted \<longrightarrow>
           validateTypeNode fuel' h node v p repository errors scope
             = validateTypeNode fuel h node v p repository errors scope"
    and "\<forall>fuel'. fuel \<le> fuel' \<longrightarrow>
           validateAgainstTypeName fuel h v typeName p repository errors scope \<noteq> Inl StackExhausted \<longrightarrow>
           validateAgainstTypeName fuel' h v typeName p repository errors scope
             = validateAgainstTypeName fuel h v typeName p repository errors scope"
    and "\<forall>fuel'. fuel \<le> fuel' \<longrightarrow>
           validateNamed fuel h name constraints v p repository errors scope \<noteq> Inl StackExhausted \<longrightarrow>
           validateNamed fuel' h name constraints v p repository errors scope
             = validateNamed fuel h name constraints v p repository errors scope"
    and "\<forall>fuel'. fuel \<le> fuel' \<longrightarrow>
           isValid fuel h node v repository scope \<noteq> Inl StackExhausted \<longrightarrow>
           isValid fuel' h node v repository scope = isValid fuel h node v repository scope"
proof (induction fuel h node v p repository errors scope
    and fuel h v typeName p repository errors scope
    and fuel h name constraints v p repository errors scope
    and fuel h node v repository scope
    rule: validateTypeNode_validateAgainstTypeName_validateNamed_isValid.induct)
  case (6 fuel h itemType constraints v p repository errors scope)
  show ?case
  proof (cases v)
    case (JArr items)
    show ?thesis
    proof (intro allI impI)
      fix fuel'
      assume le: "fuel \<le> fuel'"
        and ok: "validateTypeNode fuel h (KArray itemType constraints) v p repository errors scope
                   \<noteq> Inl StackExhausted"
      let ?f = "\<lambda>n i es. validateTypeNode n h itemType (items ! i)
                       (p @ ''['' @ string_of_nat i @ '']'') repository es
                       (scope\<lparr>current := items ! i, parent := v\<rparr>)"
      let ?s = "foldl (\<lambda>es constraint. applyConstraint h ''Array'' constraint v p repository es scope)
                  errors constraints"
      have "for_each (?f fuel') [0 ..< length items] ?s = for_each (?f fuel) [0 ..< length items] ?s"
      proof (rule for_each_more)
        show "?f fuel' i s = ?f fuel i s"
          if "i \<in> set [0 ..< length items]" "?f fuel i s \<noteq> Inl StackExhausted" for i s
          using "6.IH" [OF JArr that(1), of s, rule_format, OF le] that(2) by simp
        show "for_each (?f fuel) [0 ..< length items] ?s \<noteq> Inl StackExhausted"
          using ok JArr by simp
      qed
      then show "validateTypeNode fuel' h (KArray itemType constraints) v p repository errors scope
          = validateTypeNode fuel h (KArray itemType constraints) v p repository errors scope"
        using JArr by simp
    qed
  qed simp_all
next
  case (7 fuel h fieldDefs v p repository errors scope)
  show ?case
  proof (cases "isObject v")
    case True
    show ?thesis
    proof (intro allI impI)
      fix fuel'
      assume le: "fuel \<le> fuel'"
        and ok: "validateTypeNode fuel h (KRecord fieldDefs) v p repository errors scope
                   \<noteq> Inl StackExhausted"
      let ?f = "\<lambda>n field es.
             if \<not> hasOwnProperty v (field_name field) then
               (if optional field \<or> defaultExpr field \<noteq> None then Inr es
                else (case field_type field of
                        NullNode \<Rightarrow> Inl TypeErrorThrown
                      | KAbsent \<Rightarrow> Inr es
                      | _ \<Rightarrow> Inr (es @ [newValidationError (p @ ''.'' @ field_name field)
                                 ''Missing required field.'' ''FieldMissing'' ''ValidationError''])))
             else
               validateTypeNode n h (field_type field) (get_property v (field_name field))
                 (p @ ''.'' @ field_name field) repository es
                 (scope\<lparr>current := get_property v (field_name field), parent := v\<rparr>)"
      have "for_each (?f fuel') fieldDefs errors = for_each (?f fuel) fieldDefs errors"
      proof (rule for_each_more)
        show "?f fuel' x s = ?f fuel x s"
          if "x \<in> set fieldDefs" "?f fuel x s \<noteq> Inl StackExhausted" for x s
        proof (cases "hasOwnProperty v (field_name x)")
          case True
          then show ?thesis using "7.IH" [of x s, rule_format, OF _ that(1) _ le] \<open>isObject v\<close> that(2) by simp
        next
          case False
          then show ?thesis by simp
        qed
        show "for_each (?f fuel) fieldDefs errors \<noteq> Inl StackExhausted"
          using ok True by simp
      qed
      then show "validateTypeNode fuel' h (KRecord fieldDefs) v p repository errors scope
          = validateTypeNode fuel h (KRecord fieldDefs) v p repository errors scope"
        using True by simp
    qed
  qed simp
next
  case (8 fuel h keyType valueType v p repository errors scope)
  show ?case
  proof (cases v)
    case (JObj entries)
    note IH = "8.IH" [OF JObj, unfolded JObj]
    let ?v = "JObj entries"
    show ?thesis
    proof (intro allI impI)
      fix fuel'
      assume le: "fuel \<le> fuel'"
        and ok: "validateTypeNode fuel h (KDict keyType valueType) v p repository errors scope
                   \<noteq> Inl StackExhausted"
      let ?k = "\<lambda>n entryKey es. validateTypeNode n h keyType (JStr entryKey)
                      (p @ ''.[key:'' @ entryKey @ '']'') repository es
                      (scope\<lparr>current := JStr entryKey, parent := ?v\<rparr>)"
      let ?w = "\<lambda>n entryKey entryValue es.
                   validateTypeNode n h valueType entryValue (p @ ''.'' @ entryKey)
                     repository es (scope\<lparr>current := entryValue, parent := ?v\<rparr>)"
      let ?f = "\<lambda>n (entryKey, entryValue) es.
               case ?k n entryKey es of Inl e \<Rightarrow> Inl e | Inr es' \<Rightarrow> ?w n entryKey entryValue es'"
      have "for_each (?f fuel') entries errors = for_each (?f fuel) entries errors"
      proof (rule for_each_more)
        show "?f fuel' x s = ?f fuel x s"
          if mem: "x \<in> set entries" and okx: "?f fuel x s \<noteq> Inl StackExhausted" for x s
        proof -
          obtain k w where x: "x = (k, w)" by (cases x)
          have okk: "?k fuel k s \<noteq> Inl StackExhausted"
            using okx x by (auto split: sum.splits)
          have key: "?k fuel' k s = ?k fuel k s"
            using IH(1) [OF mem x [symmetric], of s, rule_format, OF le] okk by simp
          show ?thesis
          proof (cases "?k fuel k s")
            case (Inl e)
            then show ?thesis using key x by simp
          next
            case (Inr es')
            have "?w fuel' k w es' = ?w fuel k w es'"
              using IH(2) [OF mem x [symmetric] Inr, rule_format, OF le] okx x Inr by simp
            then show ?thesis using key x Inr by simp
          qed
        qed
        show "for_each (?f fuel) entries errors \<noteq> Inl StackExhausted"
          using ok JObj by simp
      qed
      then show "validateTypeNode fuel' h (KDict keyType valueType) v p repository errors scope
          = validateTypeNode fuel h (KDict keyType valueType) v p repository errors scope"
        by (simp add: JObj)
    qed
  qed simp_all
next
  case (9 fuel h members v p repository errors scope)
  show ?case
  proof (intro allI impI)
    fix fuel'
    assume le: "fuel \<le> fuel'"
      and ok: "validateTypeNode fuel h (KUnion members) v p repository errors scope
                 \<noteq> Inl StackExhausted"
    let ?f = "\<lambda>n member. isValid n h member v repository scope"
    have "array_some (?f fuel') members = array_some (?f fuel) members"
    proof (rule array_some_more)
      show "?f fuel' x = ?f fuel x" if "x \<in> set members" "?f fuel x \<noteq> Inl StackExhausted" for x
        using "9.IH" [OF that(1), rule_format, OF le] that(2) by simp
      show "array_some (?f fuel) members \<noteq> Inl StackExhausted"
        using ok by (auto split: sum.splits)
    qed
    then show "validateTypeNode fuel' h (KUnion members) v p repository errors scope
        = validateTypeNode fuel h (KUnion members) v p repository errors scope"
      by simp
  qed
next
  case (10 fuel h members v p repository errors scope)
  show ?case
  proof (intro allI impI)
    fix fuel'
    assume le: "fuel \<le> fuel'"
      and ok: "validateTypeNode fuel h (KIntersection members) v p repository errors scope
                 \<noteq> Inl StackExhausted"
    let ?f = "\<lambda>n member es. validateTypeNode n h member v p repository es scope"
    have "for_each (?f fuel') members errors = for_each (?f fuel) members errors"
    proof (rule for_each_more)
      show "?f fuel' x s = ?f fuel x s"
        if "x \<in> set members" "?f fuel x s \<noteq> Inl StackExhausted" for x s
        using "10.IH" [OF that(1), of s, rule_format, OF le] that(2) by simp
      show "for_each (?f fuel) members errors \<noteq> Inl StackExhausted"
        using ok by simp
    qed
    then show "validateTypeNode fuel' h (KIntersection members) v p repository errors scope
        = validateTypeNode fuel h (KIntersection members) v p repository errors scope"
      by simp
  qed
next
  case (11 fuel h condition thenType elseType v p repository errors scope)
  let ?branch = "conditional_branch (evaluateCondition h condition (guard_scope scope))
                   thenType elseType"
  show ?case
  proof (intro allI impI)
    fix fuel'
    assume le: "fuel \<le> fuel'"
      and ok: "validateTypeNode fuel h (KConditional condition thenType elseType) v p repository
                 errors scope \<noteq> Inl StackExhausted"
    show "validateTypeNode fuel' h (KConditional condition thenType elseType) v p repository
            errors scope
          = validateTypeNode fuel h (KConditional condition thenType elseType) v p repository
              errors scope"
    proof (cases "truthy_node ?branch")
      case True
      have "validateTypeNode fuel h ?branch v p repository errors scope \<noteq> Inl StackExhausted"
        using ok True by (simp add: Let_def)
      then have "validateTypeNode fuel' h ?branch v p repository errors scope
          = validateTypeNode fuel h ?branch v p repository errors scope"
        using "11.IH"(1) [OF refl refl True, rule_format, OF le] by simp
      then show ?thesis using True by (simp add: Let_def)
    next
      case False
      have ok1: "isValid fuel h thenType v repository scope \<noteq> Inl StackExhausted"
        using ok False by (auto simp: Let_def split: sum.splits)
      have t: "isValid fuel' h thenType v repository scope = isValid fuel h thenType v repository scope"
        using "11.IH"(2) [OF refl refl False, rule_format, OF le] ok1 by simp
      show ?thesis
      proof (cases "isValid fuel h thenType v repository scope")
        case (Inl e)
        then show ?thesis using t False by (simp add: Let_def)
      next
        case (Inr b1)
        show ?thesis
        proof (cases b1)
          case True
          then show ?thesis using t Inr False by (simp add: Let_def)
        next
          case b1: False
          have ok2: "isValid fuel h elseType v repository scope \<noteq> Inl StackExhausted"
            using ok False Inr b1 by (auto simp: Let_def split: sum.splits)
          have e: "isValid fuel' h elseType v repository scope
              = isValid fuel h elseType v repository scope"
            using "11.IH"(3) [OF refl refl False Inr, rule_format, OF _ le] b1 ok2 by simp
          show ?thesis using t e Inr b1 False by (simp add: Let_def)
        qed
      qed
    qed
  qed
next
  case (15 fuel h v typeName p repository errors scope)
  show ?case
  proof (intro allI impI)
    fix fuel'
    assume le: "fuel \<le> fuel'"
      and ok: "validateAgainstTypeName fuel h v typeName p repository errors scope
                 \<noteq> Inl StackExhausted"
    show "validateAgainstTypeName fuel' h v typeName p repository errors scope
        = validateAgainstTypeName fuel h v typeName p repository errors scope"
    proof (cases "getType repository typeName")
      case None
      then show ?thesis by (simp add: validateAgainstTypeName.simps)
    next
      case (Some td)
      show ?thesis
      proof (cases "if type_isBuiltin td then matches td else None")
        case (Some native)
        then show ?thesis using \<open>getType repository typeName = Some td\<close>
          by (simp add: validateAgainstTypeName.simps)
      next
        case None
        note user = \<open>getType repository typeName = Some td\<close> None
        show ?thesis
        proof (cases fuel)
          case 0
          then show ?thesis using ok user by (simp add: validateAgainstTypeName.simps)
        next
          case (Suc n)
          then obtain m where m: "fuel' = Suc m" "n \<le> m"
            using le by (cases fuel') simp_all
          have "validateTypeNode n h (expr td) v p repository errors scope \<noteq> Inl StackExhausted"
            using ok user Suc by (simp add: validateAgainstTypeName.simps)
          then have "validateTypeNode m h (expr td) v p repository errors scope
              = validateTypeNode n h (expr td) v p repository errors scope"
            using "15.IH" [OF user Suc, rule_format, OF m(2)] by simp
          then show ?thesis using user Suc m(1) by (simp add: validateAgainstTypeName.simps)
        qed
      qed
    qed
  qed
next
  case (16 fuel h name constraints v p repository errors scope)
  show ?case
  proof (intro allI impI)
    fix fuel'
    assume le: "fuel \<le> fuel'"
      and ok: "validateNamed fuel h name constraints v p repository errors scope
                 \<noteq> Inl StackExhausted"
    have "validateAgainstTypeName fuel h v name p repository errors scope \<noteq> Inl StackExhausted"
      using ok by (auto simp: validateNamed.simps split: sum.splits)
    then have "validateAgainstTypeName fuel' h v name p repository errors scope
        = validateAgainstTypeName fuel h v name p repository errors scope"
      using "16.IH" [rule_format, OF le] by simp
    then show "validateNamed fuel' h name constraints v p repository errors scope
        = validateNamed fuel h name constraints v p repository errors scope"
      by (simp add: validateNamed.simps)
  qed
next
  case (17 fuel h typeNode v repository scope)
  show ?case
  proof (intro allI impI)
    fix fuel'
    assume le: "fuel \<le> fuel'"
      and ok: "isValid fuel h typeNode v repository scope \<noteq> Inl StackExhausted"
    have "validateTypeNode fuel h typeNode v ''$'' repository [] scope \<noteq> Inl StackExhausted"
      using ok by (auto simp: isValid.simps split: sum.splits)
    then have "validateTypeNode fuel' h typeNode v ''$'' repository [] scope
        = validateTypeNode fuel h typeNode v ''$'' repository [] scope"
      using "17.IH" [rule_format, OF le] by simp
    then show "isValid fuel' h typeNode v repository scope = isValid fuel h typeNode v repository scope"
      by (simp add: isValid.simps)
  qed
next
  case (3 fuel h name constraints v p repository errors scope)
  show ?case unfolding validateTypeNode.simps by (rule "3.IH")
next
  case (4 fuel h name v p repository errors scope)
  show ?case
  proof (cases "v = JNull")
    case True
    then show ?thesis by simp
  next
    case False
    show ?thesis
    proof (intro allI impI)
      fix fuel'
      assume le: "fuel \<le> fuel'"
        and ok: "validateTypeNode fuel h (KNullableNamed name) v p repository errors scope
                   \<noteq> Inl StackExhausted"
      show "validateTypeNode fuel' h (KNullableNamed name) v p repository errors scope
          = validateTypeNode fuel h (KNullableNamed name) v p repository errors scope"
        using "4.IH" [OF False, rule_format, OF le] ok False by simp
    qed
  qed
next
  case (5 fuel h inner v p repository errors scope)
  show ?case
  proof (cases "v = JNull")
    case True
    then show ?thesis by simp
  next
    case False
    show ?thesis
    proof (intro allI impI)
      fix fuel'
      assume le: "fuel \<le> fuel'"
        and ok: "validateTypeNode fuel h (KNullable inner) v p repository errors scope
                   \<noteq> Inl StackExhausted"
      show "validateTypeNode fuel' h (KNullable inner) v p repository errors scope
          = validateTypeNode fuel h (KNullable inner) v p repository errors scope"
        using "5.IH" [OF False, rule_format, OF le] ok False by simp
    qed
  qed
qed simp_all

lemma validate_more_fuel:
  assumes "fuel \<le> fuel'"
    and "validate fuel h jsonInput repository rootType \<noteq> Inl StackExhausted"
  shows "validate fuel' h jsonInput repository rootType = validate fuel h jsonInput repository rootType"
proof (cases "decode_input h jsonInput")
  case (Inl msg)
  then show ?thesis by (simp add: validate_def)
next
  case (Inr v)
  show ?thesis
  proof (cases "resolveRootType repository rootType")
    case (Inl msg)
    then show ?thesis using Inr by (simp add: validate_def)
  next
    case root: (Inr resolvedRoot)
    let ?scope = "\<lparr>root = v, current = v, parent = JNull\<rparr>"
    have "validateAgainstTypeName fuel h v resolvedRoot ''$'' repository [] ?scope
        \<noteq> Inl StackExhausted"
      using assms(2) Inr root by (simp add: validate_def)
    then have "validateAgainstTypeName fuel' h v resolvedRoot ''$'' repository [] ?scope
        = validateAgainstTypeName fuel h v resolvedRoot ''$'' repository [] ?scope"
      using more_fuel(2) [rule_format, OF assms(1)] by blast
    then show ?thesis using Inr root by (simp add: validate_def)
  qed
qed

subsection \<open>Every violation is collected\<close>












subsection \<open>No state between invocations\<close>

lemma untouched_refl: "untouched a m m"
  by (simp add: untouched_def)

lemma untouched_trans: "untouched a m m1 \<Longrightarrow> untouched a m1 m2 \<Longrightarrow> untouched a m m2"
  by (auto simp: untouched_def)

lemma untouched_push: "untouched a m (push a e m)"
  by (simp add: untouched_def push_def)

lemma preserved_untouched: "preserved m m' \<Longrightarrow> untouched a m m'"
  by (simp add: preserved_def untouched_def)

lemma preserved_trans: "preserved m m1 \<Longrightarrow> preserved m1 m2 \<Longrightarrow> preserved m m2"
  by (auto simp: preserved_def)

lemma simulates_Inr: "simulates a m (Inr (arrays m a)) (Inr m)"
  by (simp add: simulates_def untouched_refl)

lemma simulates_push: "simulates a m (Inr (arrays m a @ [e])) (Inr (push a e m))"
  by (simp add: simulates_def untouched_push) (simp add: push_def)

lemma simulates_after:
  "untouched a m m1 \<Longrightarrow> simulates a m1 r r' \<Longrightarrow> simulates a m r r'"
  by (auto simp: simulates_def split: sum.splits intro: untouched_trans)

lemma simulates_valid_after:
  "preserved m m1 \<Longrightarrow> simulates_valid m1 r r' \<Longrightarrow> simulates_valid m r r'"
  by (auto simp: simulates_valid_def split: sum.splits intro: preserved_trans)

lemma untouched_less: "untouched a m m' \<Longrightarrow> a < next_free m \<Longrightarrow> a < next_free m'"
  by (simp add: untouched_def)

lemma applyConstraint_heap_sim:
  "arrays (applyConstraint_heap h t c v p repository a scope m) a
     = applyConstraint h t c v p repository (arrays m a) scope
   \<and> untouched a m (applyConstraint_heap h t c v p repository a scope m)"
  by (simp add: applyConstraint_heap_def applyConstraint_def untouched_refl untouched_push
      split: option.splits) (simp add: push_def)

lemma foldl_applyConstraint_heap_sim:
  "arrays (foldl (\<lambda>m' c. applyConstraint_heap h t c v p repository a scope m') m cs) a
     = foldl (\<lambda>es c. applyConstraint h t c v p repository es scope) (arrays m a) cs
   \<and> untouched a m (foldl (\<lambda>m' c. applyConstraint_heap h t c v p repository a scope m') m cs)"
proof (induction cs arbitrary: m)
  case Nil
  then show ?case by (simp add: untouched_refl)
next
  case (Cons c cs)
  let ?m1 = "applyConstraint_heap h t c v p repository a scope m"
  show ?case
    using Cons.IH [of ?m1] applyConstraint_heap_sim [of h t c v p repository a scope m]
    by (auto intro: untouched_trans)
qed

lemma for_each_sim:
  assumes "\<And>x m. x \<in> set xs \<Longrightarrow> a < next_free m \<Longrightarrow> simulates a m (f x (arrays m a)) (g x m)"
    and "a < next_free m"
  shows "simulates a m (for_each f xs (arrays m a)) (for_each g xs m)"
  using assms
proof (induction xs arbitrary: m)
  case Nil
  then show ?case by (simp add: simulates_Inr)
next
  case (Cons x xs)
  have s: "simulates a m (f x (arrays m a)) (g x m)"
    by (rule Cons.prems(1)) (simp, rule Cons.prems(2))
  show ?case
  proof (cases "f x (arrays m a)")
    case (Inl e)
    then have "g x m = Inl e" using s by (simp add: simulates_def)
    then show ?thesis using Inl by (simp add: simulates_def)
  next
    case (Inr es)
    then obtain m1 where m1: "g x m = Inr m1" "arrays m1 a = es" "untouched a m m1"
      using s by (auto simp: simulates_def)
    have less: "a < next_free m1"
      using m1(3) Cons.prems(2) by (rule untouched_less)
    have "simulates a m1 (for_each f xs (arrays m1 a)) (for_each g xs m1)"
    proof (rule Cons.IH)
      fix y and n :: memory
      assume "y \<in> set xs" "a < next_free n"
      then show "simulates a n (f y (arrays n a)) (g y n)"
        using Cons.prems(1) [of y n] by simp
    qed (rule less)
    then have "simulates a m (for_each f xs (arrays m1 a)) (for_each g xs m1)"
      using m1(3) by (rule simulates_after [rotated])
    then show ?thesis using Inr m1 by simp
  qed
qed

lemma array_some_sim:
  assumes "\<And>x m. x \<in> set xs \<Longrightarrow> simulates_valid m (f x) (g x m)"
  shows "simulates_valid m (array_some f xs) (array_some_heap g xs m)"
  using assms
proof (induction xs arbitrary: m)
  case Nil
  then show ?case by (simp add: simulates_valid_def preserved_def)
next
  case (Cons x xs)
  have s: "simulates_valid m (f x) (g x m)"
    by (rule Cons.prems) simp
  show ?case
  proof (cases "f x")
    case (Inl e)
    then have "g x m = Inl e" using s by (simp add: simulates_valid_def)
    then show ?thesis using Inl by (simp add: simulates_valid_def)
  next
    case (Inr b)
    then obtain m1 where m1: "g x m = Inr (b, m1)" "preserved m m1"
      using s by (auto simp: simulates_valid_def)
    show ?thesis
    proof (cases b)
      case True
      then show ?thesis using Inr m1 by (simp add: simulates_valid_def)
    next
      case False
      have "simulates_valid m1 (array_some f xs) (array_some_heap g xs m1)"
      proof (rule Cons.IH)
        fix y and n :: memory
        assume "y \<in> set xs"
        then show "simulates_valid n (f y) (g y n)"
          using Cons.prems [of y n] by simp
      qed
      then have "simulates_valid m (array_some f xs) (array_some_heap g xs m1)"
        using m1(2) by (rule simulates_valid_after [rotated])
      then show ?thesis using Inr m1 False by simp
    qed
  qed
qed


lemma heap_simulation:
  shows "a < next_free m \<Longrightarrow>
         simulates a m (validateTypeNode fuel h node v p repository (arrays m a) scope)
           (validateTypeNode_heap fuel h node v p repository a scope m)"
    and "a < next_free m \<Longrightarrow>
         simulates a m (validateAgainstTypeName fuel h v typeName p repository (arrays m a) scope)
           (validateAgainstTypeName_heap fuel h v typeName p repository a scope m)"
    and "a < next_free m \<Longrightarrow>
         simulates a m (validateNamed fuel h name constraints v p repository (arrays m a) scope)
           (validateNamed_heap fuel h name constraints v p repository a scope m)"
    and "simulates_valid m (isValid fuel h node v repository scope)
           (isValid_heap fuel h node v repository scope m)"
proof (induction fuel h node v p repository a scope m
    and fuel h v typeName p repository a scope m
    and fuel h name constraints v p repository a scope m
    and fuel h node v repository scope m
    rule: validateTypeNode_heap_validateAgainstTypeName_heap_validateNamed_heap_isValid_heap.induct)
  case (1 fuel h v p repository a scope m)
  then show ?case by (simp add: simulates_Inr)
next
  case (2 fuel h b v p repository a scope m)
  then show ?case by (simp add: simulates_Inr)
next
  case (3 fuel h name constraints v p repository a scope m)
  then show ?case by simp
next
  case (4 fuel h name v p repository a scope m)
  then show ?case by (simp add: simulates_Inr)
next
  case (5 fuel h inner v p repository a scope m)
  then show ?case by (simp add: simulates_Inr)
next
  case (6 fuel h itemType constraints v p repository a scope m)
  show ?case
  proof (cases v)
    case (JArr items)
    let ?m0 = "foldl (\<lambda>m' c. applyConstraint_heap h ''Array'' c v p repository a scope m') m constraints"
    let ?f = "\<lambda>i es. validateTypeNode fuel h itemType (items ! i)
                       (p @ ''['' @ string_of_nat i @ '']'') repository es
                       (scope\<lparr>current := items ! i, parent := v\<rparr>)"
    let ?g = "\<lambda>i m'. validateTypeNode_heap fuel h itemType (items ! i)
                       (p @ ''['' @ string_of_nat i @ '']'') repository a
                       (scope\<lparr>current := items ! i, parent := v\<rparr>) m'"
    have c: "arrays ?m0 a
        = foldl (\<lambda>es c. applyConstraint h ''Array'' c v p repository es scope) (arrays m a) constraints"
      "untouched a m ?m0"
      using foldl_applyConstraint_heap_sim [of h "''Array''" v p repository a scope m constraints]
      by simp_all
    have less: "a < next_free ?m0"
      using c(2) "6.prems" by (rule untouched_less)
    have "simulates a ?m0 (for_each ?f [0 ..< length items] (arrays ?m0 a))
        (for_each ?g [0 ..< length items] ?m0)"
    proof (rule for_each_sim)
      fix x and n :: memory
      assume "x \<in> set [0 ..< length items]" "a < next_free n"
      then show "simulates a n (?f x (arrays n a)) (?g x n)"
        by (rule "6.IH" [OF JArr])
    qed (rule less)
    then have "simulates a m (for_each ?f [0 ..< length items] (arrays ?m0 a))
        (for_each ?g [0 ..< length items] ?m0)"
      using c(2) by (rule simulates_after [rotated])
    then show ?thesis
      unfolding c(1) using JArr by simp
  qed (simp_all add: simulates_push)
next
  case (7 fuel h fieldDefs v p repository a scope m)
  show ?case
  proof (cases "isObject v")
    case True
    let ?f = "\<lambda>field es.
             if \<not> hasOwnProperty v (field_name field) then
               (if optional field \<or> defaultExpr field \<noteq> None then Inr es
                else (case field_type field of
                        NullNode \<Rightarrow> Inl TypeErrorThrown
                      | KAbsent \<Rightarrow> Inr es
                      | _ \<Rightarrow> Inr (es @ [newValidationError (p @ ''.'' @ field_name field)
                                 ''Missing required field.'' ''FieldMissing'' ''ValidationError''])))
             else
               validateTypeNode fuel h (field_type field) (get_property v (field_name field))
                 (p @ ''.'' @ field_name field) repository es
                 (scope\<lparr>current := get_property v (field_name field), parent := v\<rparr>)"
    let ?g = "\<lambda>field m'.
             if \<not> hasOwnProperty v (field_name field) then
               (if optional field \<or> defaultExpr field \<noteq> None then Inr m'
                else (case field_type field of
                        NullNode \<Rightarrow> Inl TypeErrorThrown
                      | KAbsent \<Rightarrow> Inr m'
                      | _ \<Rightarrow> Inr (push a
                                 (newValidationError (p @ ''.'' @ field_name field)
                                    ''Missing required field.'' ''FieldMissing'' ''ValidationError'')
                                 m')))
             else
               validateTypeNode_heap fuel h (field_type field) (get_property v (field_name field))
                 (p @ ''.'' @ field_name field) repository a
                 (scope\<lparr>current := get_property v (field_name field), parent := v\<rparr>) m'"
    have step: "simulates a n (?f x (arrays n a)) (?g x n)"
      if "x \<in> set fieldDefs" "a < next_free n" for x and n :: memory
    proof (cases "hasOwnProperty v (field_name x)")
      case True
      then show ?thesis using "7.IH" [of x n] \<open>isObject v\<close> that by simp
    next
      case False
      then show ?thesis
        by (simp add: simulates_Inr simulates_push split: typeNode.splits)
          (simp add: simulates_def)
    qed
    have "simulates a m (for_each ?f fieldDefs (arrays m a)) (for_each ?g fieldDefs m)"
      by (rule for_each_sim) (rule step, assumption+, rule "7.prems")
    then show ?thesis using True by simp
  next
    case False
    then show ?thesis by (simp add: simulates_push)
  qed
next
  case (8 fuel h keyType valueType v p repository a scope m)
  show ?case
  proof (cases v)
    case (JObj entries)
    note IH = "8.IH" [OF JObj, unfolded JObj]
    let ?k = "\<lambda>entryKey es. validateTypeNode fuel h keyType (JStr entryKey)
                      (p @ ''.[key:'' @ entryKey @ '']'') repository es
                      (scope\<lparr>current := JStr entryKey, parent := JObj entries\<rparr>)"
    let ?w = "\<lambda>entryKey entryValue es.
                   validateTypeNode fuel h valueType entryValue (p @ ''.'' @ entryKey)
                     repository es (scope\<lparr>current := entryValue, parent := JObj entries\<rparr>)"
    let ?kh = "\<lambda>entryKey m'. validateTypeNode_heap fuel h keyType (JStr entryKey)
                      (p @ ''.[key:'' @ entryKey @ '']'') repository a
                      (scope\<lparr>current := JStr entryKey, parent := JObj entries\<rparr>) m'"
    let ?wh = "\<lambda>entryKey entryValue m'.
                   validateTypeNode_heap fuel h valueType entryValue (p @ ''.'' @ entryKey)
                     repository a (scope\<lparr>current := entryValue, parent := JObj entries\<rparr>) m'"
    let ?f = "\<lambda>(entryKey, entryValue) es.
               case ?k entryKey es of Inl e \<Rightarrow> Inl e | Inr es' \<Rightarrow> ?w entryKey entryValue es'"
    let ?g = "\<lambda>(entryKey, entryValue) m'.
               case ?kh entryKey m' of Inl e \<Rightarrow> Inl e | Inr m'' \<Rightarrow> ?wh entryKey entryValue m''"
    have step: "simulates a n (?f x (arrays n a)) (?g x n)"
      if mem: "x \<in> set entries" and less: "a < next_free n" for x and n :: memory
    proof -
      obtain k w where x: "x = (k, w)" by (cases x)
      have key: "simulates a n (?k k (arrays n a)) (?kh k n)"
        by (rule IH(1) [OF mem x [symmetric] less])
      show ?thesis
      proof (cases "?k k (arrays n a)")
        case (Inl e)
        then have "?kh k n = Inl e" using key by (simp add: simulates_def)
        then show ?thesis using Inl x by (simp add: simulates_def)
      next
        case (Inr es)
        then obtain n1 where n1: "?kh k n = Inr n1" "arrays n1 a = es" "untouched a n n1"
          using key by (auto simp: simulates_def)
        have less1: "a < next_free n1"
          using n1(3) less by (rule untouched_less)
        have "simulates a n1 (?w k w (arrays n1 a)) (?wh k w n1)"
          by (rule IH(2) [OF mem x [symmetric] n1(1) less1])
        then have "simulates a n (?w k w (arrays n1 a)) (?wh k w n1)"
          using n1(3) by (rule simulates_after [rotated])
        then show ?thesis using Inr n1 x by simp
      qed
    qed
    have "simulates a m (for_each ?f entries (arrays m a)) (for_each ?g entries m)"
      by (rule for_each_sim) (rule step, assumption+, rule "8.prems")
    then show ?thesis by (simp add: JObj)
  qed (simp_all add: simulates_push)
next
  case (9 fuel h members v p repository a scope m)
  let ?e = "newValidationError p ''Value does not match any union member.''
                         ''TypeMismatch'' ''TypeError''"
  have sv: "simulates_valid m
      (array_some (\<lambda>member. isValid fuel h member v repository scope) members)
      (array_some_heap (\<lambda>member m'. isValid_heap fuel h member v repository scope m') members m)"
    by (rule array_some_sim) (rule "9.IH")
  show ?case
  proof (cases "array_some (\<lambda>member. isValid fuel h member v repository scope) members")
    case (Inl e)
    then show ?thesis using sv by (simp add: simulates_valid_def simulates_def)
  next
    case (Inr b)
    then obtain m1 where m1:
      "array_some_heap (\<lambda>member m'. isValid_heap fuel h member v repository scope m') members m
         = Inr (b, m1)" "preserved m m1"
      using sv by (auto simp: simulates_valid_def)
    have same: "arrays m1 a = arrays m a"
      using m1(2) "9.prems" by (simp add: preserved_def)
    have u: "untouched a m m1"
      using m1(2) by (rule preserved_untouched)
    have "simulates a m (Inr (arrays m a)) (Inr m1)"
      using same u by (simp add: simulates_def)
    moreover have "simulates a m (Inr (arrays m a @ [?e])) (Inr (push a ?e m1))"
      using simulates_push [of a m1 ?e] u unfolding same by (rule simulates_after [rotated])
    ultimately show ?thesis using Inr m1(1) by simp
  qed
next
  case (10 fuel h members v p repository a scope m)
  have "simulates a m
      (for_each (\<lambda>member es. validateTypeNode fuel h member v p repository es scope) members
         (arrays m a))
      (for_each (\<lambda>member m'. validateTypeNode_heap fuel h member v p repository a scope m')
         members m)"
    by (rule for_each_sim) (rule "10.IH", assumption+, rule "10.prems")
  then show ?case by simp
next
  case (11 fuel h condition thenType elseType v p repository a scope m)
  let ?branch = "conditional_branch (evaluateCondition h condition (guard_scope scope))
      thenType elseType"
  let ?e = "newValidationError p ''Value does not match conditional branches.''
                                         ''TypeMismatch'' ''TypeError''"
  show ?case
  proof (cases "truthy_node ?branch")
    case True
    then show ?thesis
      using "11.IH"(1) [OF refl refl True "11.prems"] by (simp add: Let_def)
  next
    case False
    have s1: "simulates_valid m (isValid fuel h thenType v repository scope)
        (isValid_heap fuel h thenType v repository scope m)"
      by (rule "11.IH"(2) [OF refl refl False])
    show ?thesis
    proof (cases "isValid fuel h thenType v repository scope")
      case (Inl e)
      then show ?thesis using s1 False by (simp add: simulates_valid_def simulates_def Let_def)
    next
      case b1: (Inr b1)
      then obtain m1 where m1: "isValid_heap fuel h thenType v repository scope m = Inr (b1, m1)"
        "preserved m m1"
        using s1 by (auto simp: simulates_valid_def)
      have same1: "arrays m1 a = arrays m a"
        using m1(2) "11.prems" by (simp add: preserved_def)
      have u1: "untouched a m m1"
        using m1(2) by (rule preserved_untouched)
      show ?thesis
      proof (cases b1)
        case True
        then show ?thesis
          using b1 m1(1) False same1 u1 by (simp add: Let_def simulates_def)
      next
        case nb1: False
        have s2: "simulates_valid m1 (isValid fuel h elseType v repository scope)
            (isValid_heap fuel h elseType v repository scope m1)"
          using "11.IH"(3) [OF refl refl False m1(1)] nb1 by simp
        show ?thesis
        proof (cases "isValid fuel h elseType v repository scope")
          case (Inl e)
          then show ?thesis
            using s2 b1 nb1 m1(1) False by (simp add: simulates_valid_def simulates_def Let_def)
        next
          case b2: (Inr b2)
          then obtain m2 where m2:
            "isValid_heap fuel h elseType v repository scope m1 = Inr (b2, m2)" "preserved m1 m2"
            using s2 by (auto simp: simulates_valid_def)
          have p2: "preserved m m2"
            using m1(2) m2(2) by (rule preserved_trans)
          have same2: "arrays m2 a = arrays m a"
            using p2 "11.prems" by (simp add: preserved_def)
          have u2: "untouched a m m2"
            using p2 by (rule preserved_untouched)
          have "simulates a m (Inr (arrays m a)) (Inr m2)"
            using same2 u2 by (simp add: simulates_def)
          moreover have "simulates a m (Inr (arrays m a @ [?e])) (Inr (push a ?e m2))"
            using simulates_push [of a m2 ?e] u2 unfolding same2 by (rule simulates_after [rotated])
          ultimately show ?thesis
            using b1 nb1 b2 m1(1) m2(1) False by (simp add: Let_def)
        qed
      qed
    qed
  qed
next
  case (12 fuel h lit v p repository a scope m)
  then show ?case by (simp add: simulates_Inr simulates_push)
next
  case (13 fuel h v p repository a scope m)
  then show ?case by (simp add: simulates_Inr simulates_push)
next
  case (14 fuel h k v p repository a scope m)
  then show ?case by (simp add: simulates_Inr)
next
  case (15 fuel h v typeName p repository a scope m)
  show ?case
  proof (cases "getType repository typeName")
    case None
    then show ?thesis
      by (simp add: validateAgainstTypeName.simps validateAgainstTypeName_heap.simps simulates_push)
  next
    case (Some td)
    show ?thesis
    proof (cases "if type_isBuiltin td then matches td else None")
      case native: (Some native)
      then show ?thesis
        using Some
        by (simp add: validateAgainstTypeName.simps validateAgainstTypeName_heap.simps
            simulates_push simulates_Inr)
    next
      case None
      show ?thesis
      proof (cases fuel)
        case 0
        then show ?thesis
          using Some None
          by (simp add: validateAgainstTypeName.simps validateAgainstTypeName_heap.simps
              simulates_def)
      next
        case (Suc fuel')
        then show ?thesis
          using Some None "15.IH" [OF Some None Suc "15.prems"]
          by (simp add: validateAgainstTypeName.simps validateAgainstTypeName_heap.simps)
      qed
    qed
  qed
next
  case (16 fuel h name constraints v p repository a scope m)
  let ?cs = "case constraints of None \<Rightarrow> [] | Some cs \<Rightarrow> cs"
  have s: "simulates a m (validateAgainstTypeName fuel h v name p repository (arrays m a) scope)
      (validateAgainstTypeName_heap fuel h v name p repository a scope m)"
    by (rule "16.IH") (rule "16.prems")
  show ?case
  proof (cases "validateAgainstTypeName fuel h v name p repository (arrays m a) scope")
    case (Inl e)
    then show ?thesis
      using s by (simp add: validateNamed.simps validateNamed_heap.simps simulates_def)
  next
    case (Inr es)
    then obtain m1 where m1:
      "validateAgainstTypeName_heap fuel h v name p repository a scope m = Inr m1"
      "arrays m1 a = es" "untouched a m m1"
      using s by (auto simp: simulates_def)
    let ?m2 = "foldl (\<lambda>m'' c. applyConstraint_heap h name c v p repository a scope m'') m1 ?cs"
    have c: "arrays ?m2 a
        = foldl (\<lambda>es c. applyConstraint h name c v p repository es scope) es ?cs"
      "untouched a m1 ?m2"
      using foldl_applyConstraint_heap_sim [of h name v p repository a scope m1 ?cs] m1(2)
      by simp_all
    have "untouched a m ?m2"
      using m1(3) c(2) by (rule untouched_trans)
    then show ?thesis
      using Inr m1(1) c(1)
      by (simp add: validateNamed.simps validateNamed_heap.simps simulates_def)
  qed
next
  case (17 fuel h typeNode v repository scope m)
  let ?b = "next_free m"
  let ?m0 = "alloc m"
  have less: "?b < next_free ?m0" by (simp add: alloc_def)
  have e: "arrays ?m0 ?b = []" by (simp add: alloc_def)
  have s: "simulates ?b ?m0
      (validateTypeNode fuel h typeNode v ''$'' repository (arrays ?m0 ?b) scope)
      (validateTypeNode_heap fuel h typeNode v ''$'' repository ?b scope ?m0)"
    by (rule "17.IH") (rule less)
  have pres: "preserved m m'" if "untouched ?b ?m0 m'" for m'
    using that by (auto simp: untouched_def preserved_def alloc_def)
  show ?case
  proof (cases "validateTypeNode fuel h typeNode v ''$'' repository [] scope")
    case (Inl e)
    then show ?thesis
      using s e by (simp add: isValid.simps isValid_heap.simps simulates_def simulates_valid_def)
  next
    case (Inr es)
    then obtain m' where m': "validateTypeNode_heap fuel h typeNode v ''$'' repository ?b scope ?m0
        = Inr m'" "arrays m' ?b = es" "untouched ?b ?m0 m'"
      using s e by (auto simp: simulates_def)
    show ?thesis
      using Inr m'(1,2) pres [OF m'(3)]
      by (simp add: isValid.simps isValid_heap.simps simulates_valid_def)
  qed
qed

lemma validate_heap_validate:
  "returned (validate_heap fuel h jsonInput repository rootType m)
     = validate fuel h jsonInput repository rootType
   \<and> (\<forall>es after. validate_heap fuel h jsonInput repository rootType m = Inr (es, after) \<longrightarrow>
         preserved m after)"
proof (cases "decode_input h jsonInput")
  case (Inl msg)
  then show ?thesis
    by (auto simp: validate_heap_def validate_def returned_def push_def alloc_def preserved_def Let_def)
next
  case (Inr v)
  show ?thesis
  proof (cases "resolveRootType repository rootType")
    case (Inl msg)
    then show ?thesis
      using Inr
      by (auto simp: validate_heap_def validate_def returned_def push_def alloc_def preserved_def
          Let_def)
  next
    case root: (Inr resolvedRoot)
    let ?a = "next_free m"
    let ?m0 = "alloc m"
    let ?scope = "\<lparr>root = v, current = v, parent = JNull\<rparr>"
    have less: "?a < next_free ?m0" by (simp add: alloc_def)
    have e: "arrays ?m0 ?a = []" by (simp add: alloc_def)
    have s: "simulates ?a ?m0
        (validateAgainstTypeName fuel h v resolvedRoot ''$'' repository (arrays ?m0 ?a) ?scope)
        (validateAgainstTypeName_heap fuel h v resolvedRoot ''$'' repository ?a ?scope ?m0)"
      using less by (rule heap_simulation(2))
    have pres: "preserved m m'" if "untouched ?a ?m0 m'" for m'
      using that by (auto simp: untouched_def preserved_def alloc_def)
    show ?thesis
    proof (cases "validateAgainstTypeName fuel h v resolvedRoot ''$'' repository [] ?scope")
      case (Inl e)
      then show ?thesis
        using s e Inr root
        by (simp add: validate_heap_def validate_def returned_def simulates_def)
    next
      case es: (Inr es)
      then obtain m' where m':
        "validateAgainstTypeName_heap fuel h v resolvedRoot ''$'' repository ?a ?scope ?m0 = Inr m'"
        "arrays m' ?a = es" "untouched ?a ?m0 m'"
        using s e by (auto simp: simulates_def)
      show ?thesis
        using es m'(1,2) pres [OF m'(3)] Inr root
        by (simp add: validate_heap_def validate_def returned_def)
    qed
  qed
qed

text \<open>
  Claim C8. Two invocations of \<open>validate\<close> on the same value, repository and root type
  return the same list, the same diagnostics in the same order (or throw the same),
  whatever the memory each of them starts in, that is, whatever calls came before, and
  whatever stack each has left, provided it suffices. An invocation changes no array
  that existed before it, so the lists returned earlier stay as they were, and run
  again in the memory it has left it returns the same list.
\<close>

theorem validate_carries_no_state:
  assumes "returned (validate_heap fuel h jsonInput repository rootType m) \<noteq> Inl StackExhausted"
    and "returned (validate_heap other_fuel h jsonInput repository rootType other_m)
           \<noteq> Inl StackExhausted"
  shows "returned (validate_heap other_fuel h jsonInput repository rootType other_m)
           = returned (validate_heap fuel h jsonInput repository rootType m)
         \<and> (validate_heap fuel h jsonInput repository rootType m = Inr (es, final) \<longrightarrow>
              next_free m \<le> next_free final
              \<and> (\<forall>b<next_free m. arrays final b = arrays m b)
              \<and> returned (validate_heap fuel h jsonInput repository rootType final) = Inr es)"
proof -
  note link = validate_heap_validate [THEN conjunct1]
  have a: "validate fuel h jsonInput repository rootType \<noteq> Inl StackExhausted"
    using assms(1) unfolding link .
  have b: "validate other_fuel h jsonInput repository rootType \<noteq> Inl StackExhausted"
    using assms(2) unfolding link .
  have eq: "validate other_fuel h jsonInput repository rootType
      = validate fuel h jsonInput repository rootType"
  proof (cases "fuel \<le> other_fuel")
    case True
    then show ?thesis using a by (rule validate_more_fuel)
  next
    case False
    then have "other_fuel \<le> fuel" by simp
    then have "validate fuel h jsonInput repository rootType
        = validate other_fuel h jsonInput repository rootType"
      using b by (rule validate_more_fuel)
    then show ?thesis by simp
  qed
  have first: "returned (validate_heap other_fuel h jsonInput repository rootType other_m)
           = returned (validate_heap fuel h jsonInput repository rootType m)"
    unfolding link by (rule eq)
  have second: "next_free m \<le> next_free final
      \<and> (\<forall>b<next_free m. arrays final b = arrays m b)
      \<and> returned (validate_heap fuel h jsonInput repository rootType final) = Inr es"
    if run: "validate_heap fuel h jsonInput repository rootType m = Inr (es, final)"
  proof -
    have "preserved m final"
      using validate_heap_validate [of fuel h jsonInput repository rootType m] run by blast
    moreover have "returned (validate_heap fuel h jsonInput repository rootType final)
        = returned (validate_heap fuel h jsonInput repository rootType m)"
      unfolding link ..
    moreover have "returned (validate_heap fuel h jsonInput repository rootType m) = Inr es"
      using run by (simp add: returned_def)
    ultimately show ?thesis by (simp add: preserved_def)
  qed
  show ?thesis
    using first second by blast
qed

theorem validate_carries_no_state_witness:
  "returned (validate_heap (Suc 0) sample_host sample_post blog_repository None empty_memory)
     = Inr post_diagnostics
   \<and> returned (validate_heap (Suc (Suc 0)) sample_host sample_post blog_repository None used_memory)
     = Inr post_diagnostics
   \<and> returned (validate_heap (Suc (Suc 0)) sample_host sample_post blog_repository None used_memory)
     = returned (validate_heap (Suc 0) sample_host sample_post blog_repository None empty_memory)
   \<and> (\<exists>final. validate_heap (Suc 0) sample_host sample_post blog_repository None empty_memory
                 = Inr (post_diagnostics, final)
         \<and> returned (validate_heap (Suc 0) sample_host sample_post blog_repository None final)
             = Inr post_diagnostics)"
proof -
  have e1: "returned (validate_heap (Suc 0) sample_host sample_post blog_repository None
      empty_memory) = Inr post_diagnostics"
    by (simp add: returned_def validate_heap_def decode_input_def sample_post_def
        blog_repository_def sample_Post_def sample_String_def sample_Int_def sample_min_def
        empty_memory_def post_diagnostics_def alloc_def push_def
        validateAgainstTypeName_heap.simps validateNamed_heap.simps isValid_heap.simps
        applyConstraint_heap_def resolveConstraintArgument_def usage_def
        sample_host_def trim_def is_ws_def is_numeric_literal_def startsWith_def is_digit_def
        newValidationError_def string_of_nat.simps)
  have e2: "returned (validate_heap (Suc (Suc 0)) sample_host sample_post blog_repository None
      used_memory) = Inr post_diagnostics"
    by (simp add: returned_def validate_heap_def decode_input_def sample_post_def
        blog_repository_def sample_Post_def sample_String_def sample_Int_def sample_min_def
        used_memory_def post_diagnostics_def alloc_def push_def
        validateAgainstTypeName_heap.simps validateNamed_heap.simps isValid_heap.simps
        applyConstraint_heap_def resolveConstraintArgument_def usage_def
        sample_host_def trim_def is_ws_def is_numeric_literal_def startsWith_def is_digit_def
        newValidationError_def string_of_nat.simps)
  have n1: "returned (validate_heap (Suc 0) sample_host sample_post blog_repository None
      empty_memory) \<noteq> Inl StackExhausted"
    unfolding e1 by simp
  have n2: "returned (validate_heap (Suc (Suc 0)) sample_host sample_post blog_repository None
      used_memory) \<noteq> Inl StackExhausted"
    unfolding e2 by simp
  obtain final where run: "validate_heap (Suc 0) sample_host sample_post blog_repository None
      empty_memory = Inr (post_diagnostics, final)"
    using e1
    by (cases "validate_heap (Suc 0) sample_host sample_post blog_repository None empty_memory")
      (auto simp: returned_def)
  have r1: "returned (validate_heap (Suc (Suc 0)) sample_host sample_post blog_repository None
        used_memory)
      = returned (validate_heap (Suc 0) sample_host sample_post blog_repository None empty_memory)"
    by (rule validate_carries_no_state [OF n1 n2, THEN conjunct1])
  have r2: "returned (validate_heap (Suc 0) sample_host sample_post blog_repository None final)
      = Inr post_diagnostics"
    by (rule validate_carries_no_state [OF n1 n2, THEN conjunct2, THEN mp, OF run,
          THEN conjunct2, THEN conjunct2])
  show ?thesis
    by (intro conjI exI [of _ final]) (rule e1 e2 r1 run r2)+
qed

subsection \<open>Unions\<close>

lemma array_some_total:
  "\<forall>x \<in> set xs. \<exists>b. f x = Inr b \<Longrightarrow>
   array_some f xs = Inr (\<exists>x \<in> set xs. f x = Inr True)"
  by (induction xs) auto

lemma isValid_iff:
  "validateTypeNode fuel h node v ''$'' repository [] scope = Inr r \<Longrightarrow>
   isValid fuel h node v repository scope = Inr (r = [])"
  by (simp add: isValid.simps)

lemma array_some_result:
  "array_some f xs = Inr b \<Longrightarrow> b = (\<exists>x \<in> set xs. f x = Inr True)"
proof (induction xs)
  case Nil
  then show ?case by simp
next
  case (Cons x xs)
  show ?case
  proof (cases "f x")
    case (Inl e)
    then show ?thesis using Cons.prems by simp
  next
    case (Inr c)
    then show ?thesis using Cons by (cases c) auto
  qed
qed

lemma isValid_True_iff:
  "isValid fuel h node v repository scope = Inr True
     \<longleftrightarrow> validateTypeNode fuel h node v ''$'' repository [] scope = Inr []"
  by (auto simp: isValid.simps split: sum.splits)

lemma union_returns:
  assumes "validateTypeNode fuel h (KUnion members) v p repository errors scope = Inr r"
  shows "r = (if (\<exists>member \<in> set members.
                      validateTypeNode fuel h member v ''$'' repository [] scope = Inr [])
                then errors
                else errors @ [\<lparr>path = p, message = ''Value does not match any union member.'',
                                  code = ''TypeMismatch'', category = ''TypeError''\<rparr>])"
proof -
  let ?f = "\<lambda>member. isValid fuel h member v repository scope"
  obtain b where b: "array_some ?f members = Inr b"
    using assms by (auto split: sum.splits)
  have "b = (\<exists>member \<in> set members. ?f member = Inr True)"
    using b by (rule array_some_result)
  then have beq: "b = (\<exists>member \<in> set members.
                      validateTypeNode fuel h member v ''$'' repository [] scope = Inr [])"
    by (simp add: isValid_True_iff)
  have "validateTypeNode fuel h (KUnion members) v p repository errors scope
      = Inr (if b then errors
             else errors @ [\<lparr>path = p, message = ''Value does not match any union member.'',
                               code = ''TypeMismatch'', category = ''TypeError''\<rparr>])"
    using b by (simp add: newValidationError_def)
  then have "r = (if b then errors
             else errors @ [\<lparr>path = p, message = ''Value does not match any union member.'',
                               code = ''TypeMismatch'', category = ''TypeError''\<rparr>])"
    using assms by simp
  then show ?thesis
    unfolding beq .
qed

lemma union_total:
  assumes "\<forall>member \<in> set members.
             \<exists>r. validateTypeNode fuel h member v ''$'' repository [] scope = Inr r"
  shows "\<exists>r. validateTypeNode fuel h (KUnion members) v p repository errors scope = Inr r"
proof -
  let ?f = "\<lambda>member. isValid fuel h member v repository scope"
  have each: "\<exists>b. ?f member = Inr b" if "member \<in> set members" for member
    using assms that isValid_iff by blast
  have "array_some ?f members = Inr (\<exists>member \<in> set members. ?f member = Inr True)"
    by (rule array_some_total) (simp add: each)
  then show ?thesis by simp
qed

text \<open>
  Claim C2. Whenever the evaluation of a union node returns, it has left the collector
  as it was if and only if some member's isolated evaluation (on an empty collector of
  its own, at path \<open>$\<close>) ends with no diagnostic, and otherwise it has appended exactly
  one \<open>TypeMismatch\<close> at the current path: nothing a member reported reaches the
  collector. It returns when the isolated evaluations of the members return.
\<close>

theorem union_valid_iff_member_valid:
  "(validateTypeNode fuel h (KUnion members) v p repository errors scope = Inr r \<longrightarrow>
      r = (if (\<exists>member \<in> set members.
                 validateTypeNode fuel h member v ''$'' repository [] scope = Inr [])
           then errors
           else errors @ [\<lparr>path = p, message = ''Value does not match any union member.'',
                             code = ''TypeMismatch'', category = ''TypeError''\<rparr>]))
   \<and> ((\<forall>member \<in> set members.
          \<exists>r'. validateTypeNode fuel h member v ''$'' repository [] scope = Inr r') \<longrightarrow>
        (\<exists>r'. validateTypeNode fuel h (KUnion members) v p repository errors scope = Inr r'))"
  using union_returns [of fuel h members v p repository errors scope r]
    union_total [of members fuel h v repository scope p errors]
  by blast

theorem union_valid_iff_member_valid_witness:
  "validateTypeNode 0 sample_host (KLiteral (JStr ''Rejected'')) (JStr ''Draft'') ''$''
       sample_repository [] (sample_scope JNull)
     = Inr [\<lparr>path = ''$'', message = ''Expected literal '' @ [dquote] @ ''Rejected'' @ [dquote] @ ''.'',
              code = ''TypeMismatch'', category = ''TypeError''\<rparr>]
   \<and> validateTypeNode 0 sample_host (KLiteral (JStr ''Draft'')) (JStr ''Draft'') ''$''
       sample_repository [] (sample_scope JNull) = Inr []
   \<and> validateTypeNode 0 sample_host (KUnion [KLiteral (JStr ''Rejected''), KLiteral (JStr ''Draft'')])
        (JStr ''Draft'') ''$.status'' sample_repository [] (sample_scope JNull) = Inr []
   \<and> validateTypeNode 0 sample_host (KLiteral (JStr ''Draft'')) (JStr ''Open'') ''$''
       sample_repository [] (sample_scope JNull)
     = Inr [\<lparr>path = ''$'', message = ''Expected literal '' @ [dquote] @ ''Draft'' @ [dquote] @ ''.'',
              code = ''TypeMismatch'', category = ''TypeError''\<rparr>]
   \<and> validateTypeNode 0 sample_host (KLiteral (JStr ''Rejected'')) (JStr ''Open'') ''$''
       sample_repository [] (sample_scope JNull)
     = Inr [\<lparr>path = ''$'', message = ''Expected literal '' @ [dquote] @ ''Rejected'' @ [dquote] @ ''.'',
              code = ''TypeMismatch'', category = ''TypeError''\<rparr>]
   \<and> validateTypeNode 0 sample_host (KUnion [KLiteral (JStr ''Rejected''), KLiteral (JStr ''Draft'')])
        (JStr ''Open'') ''$.status'' sample_repository [] (sample_scope JNull)
      = Inr [\<lparr>path = ''$.status'', message = ''Value does not match any union member.'',
               code = ''TypeMismatch'', category = ''TypeError''\<rparr>]"
proof -
  let ?ms = "[KLiteral (JStr ''Rejected''), KLiteral (JStr ''Draft'')] :: int typeNode list"
  let ?mismatch = "\<lparr>path = ''$.status'', message = ''Value does not match any union member.'',
               code = ''TypeMismatch'', category = ''TypeError''\<rparr>"
  have m1: "validateTypeNode 0 sample_host (KLiteral (JStr ''Rejected'')) (JStr ''Draft'') ''$''
       sample_repository [] (sample_scope JNull)
     = Inr [\<lparr>path = ''$'', message = ''Expected literal '' @ [dquote] @ ''Rejected'' @ [dquote] @ ''.'',
              code = ''TypeMismatch'', category = ''TypeError''\<rparr>]"
    by (simp add: sample_host_def newValidationError_def)
  have m2: "validateTypeNode 0 sample_host (KLiteral (JStr ''Draft'')) (JStr ''Draft'') ''$''
       sample_repository [] (sample_scope JNull) = Inr []"
    by simp
  have m3: "validateTypeNode 0 sample_host (KLiteral (JStr ''Draft'')) (JStr ''Open'') ''$''
       sample_repository [] (sample_scope JNull)
     = Inr [\<lparr>path = ''$'', message = ''Expected literal '' @ [dquote] @ ''Draft'' @ [dquote] @ ''.'',
              code = ''TypeMismatch'', category = ''TypeError''\<rparr>]"
    by (simp add: sample_host_def newValidationError_def)
  have m4: "validateTypeNode 0 sample_host (KLiteral (JStr ''Rejected'')) (JStr ''Open'') ''$''
       sample_repository [] (sample_scope JNull)
     = Inr [\<lparr>path = ''$'', message = ''Expected literal '' @ [dquote] @ ''Rejected'' @ [dquote] @ ''.'',
              code = ''TypeMismatch'', category = ''TypeError''\<rparr>]"
    by (simp add: sample_host_def newValidationError_def)
  have h1: "\<forall>member \<in> set ?ms.
      \<exists>r. validateTypeNode 0 sample_host member (JStr ''Draft'') ''$'' sample_repository []
             (sample_scope JNull) = Inr r"
    using m1 m2 by simp
  have h2: "\<forall>member \<in> set ?ms.
      \<exists>r. validateTypeNode 0 sample_host member (JStr ''Open'') ''$'' sample_repository []
             (sample_scope JNull) = Inr r"
    using m3 m4 by simp
  obtain a where a: "validateTypeNode 0 sample_host (KUnion ?ms) (JStr ''Draft'') ''$.status''
      sample_repository [] (sample_scope JNull) = Inr a"
    using union_valid_iff_member_valid [THEN conjunct2, THEN mp, OF h1] by blast
  have "a = (if (\<exists>member \<in> set ?ms.
                 validateTypeNode 0 sample_host member (JStr ''Draft'') ''$'' sample_repository []
                   (sample_scope JNull) = Inr [])
             then [] else [] @ [?mismatch])"
    by (rule union_valid_iff_member_valid [THEN conjunct1, THEN mp, OF a])
  then have "a = []"
    using m2 by simp
  then have r1: "validateTypeNode 0 sample_host (KUnion ?ms) (JStr ''Draft'') ''$.status''
      sample_repository [] (sample_scope JNull) = Inr []"
    using a by simp
  obtain b where b: "validateTypeNode 0 sample_host (KUnion ?ms) (JStr ''Open'') ''$.status''
      sample_repository [] (sample_scope JNull) = Inr b"
    using union_valid_iff_member_valid [THEN conjunct2, THEN mp, OF h2] by blast
  have "b = (if (\<exists>member \<in> set ?ms.
                 validateTypeNode 0 sample_host member (JStr ''Open'') ''$'' sample_repository []
                   (sample_scope JNull) = Inr [])
             then [] else [] @ [?mismatch])"
    by (rule union_valid_iff_member_valid [THEN conjunct1, THEN mp, OF b])
  then have "b = [?mismatch]"
    using m3 m4 by simp
  then have r2: "validateTypeNode 0 sample_host (KUnion ?ms) (JStr ''Open'') ''$.status''
      sample_repository [] (sample_scope JNull) = Inr [?mismatch]"
    using b by simp
  show ?thesis
    by (intro conjI) (rule m1 m2 r1 m3 m4 r2)+
qed

subsection \<open>Conditional types\<close>

lemma nullish_iff: "nullish x \<longleftrightarrow> x = JNull \<or> x = JUndefined"
  by (cases x) simp_all

lemma falsy_node_cases: "\<not> truthy_node t \<Longrightarrow> t = NullNode \<or> t = PrimitiveNode False"
  by (cases t) simp_all

lemma conditional_true:
  assumes "evaluateCondition h condition (guard_scope scope) = Some True"
  shows "validateTypeNode fuel h (KConditional condition thenType elseType) v p repository errors scope
         = validateTypeNode fuel h thenType v p repository errors scope"
proof (cases "truthy_node thenType")
  case True
  then show ?thesis using assms by (simp add: Let_def conditional_branch_def)
next
  case False
  then have "thenType = NullNode \<or> thenType = PrimitiveNode False"
    by (rule falsy_node_cases)
  then show ?thesis
    using assms by (auto simp: Let_def conditional_branch_def isValid.simps)
qed

lemma conditional_false:
  assumes "evaluateCondition h condition (guard_scope scope) = Some False"
    and "truthy_node elseType"
  shows "validateTypeNode fuel h (KConditional condition thenType elseType) v p repository errors scope
         = validateTypeNode fuel h elseType v p repository errors scope"
  using assms by (simp add: Let_def conditional_branch_def)

lemma conditional_indeterminate:
  assumes "evaluateCondition h condition (guard_scope scope) = None"
    and "validateTypeNode fuel h thenType v ''$'' repository [] scope = Inr r1"
    and "validateTypeNode fuel h elseType v ''$'' repository [] scope = Inr r2"
  shows "validateTypeNode fuel h (KConditional condition thenType elseType) v p repository errors scope
         = Inr (if r1 = [] \<or> r2 = [] then errors
                else errors @ [\<lparr>path = p, message = ''Value does not match conditional branches.'',
                                  code = ''TypeMismatch'', category = ''TypeError''\<rparr>])"
  using assms
  by (simp add: Let_def conditional_branch_def isValid.simps newValidationError_def)

lemma conditional_returns:
  assumes "evaluateCondition h condition (guard_scope scope) = None"
    and "validateTypeNode fuel h (KConditional condition thenType elseType) v p repository errors scope
           = Inr r"
  shows "r = (if validateTypeNode fuel h thenType v ''$'' repository [] scope = Inr []
                 \<or> validateTypeNode fuel h elseType v ''$'' repository [] scope = Inr []
              then errors
              else errors @ [\<lparr>path = p, message = ''Value does not match conditional branches.'',
                                code = ''TypeMismatch'', category = ''TypeError''\<rparr>])"
proof (cases "isValid fuel h thenType v repository scope")
  case (Inl e)
  then show ?thesis using assms by (simp add: Let_def conditional_branch_def)
next
  case (Inr b)
  show ?thesis
  proof (cases b)
    case True
    then show ?thesis
      using assms Inr isValid_True_iff [of fuel h thenType v repository scope]
      by (simp add: Let_def conditional_branch_def)
  next
    case False
    then have nt: "validateTypeNode fuel h thenType v ''$'' repository [] scope \<noteq> Inr []"
      using Inr isValid_True_iff [of fuel h thenType v repository scope] by simp
    show ?thesis
    proof (cases "isValid fuel h elseType v repository scope")
      case (Inl e)
      then show ?thesis using assms Inr False by (simp add: Let_def conditional_branch_def)
    next
      case e: (Inr c)
      then show ?thesis
        using assms Inr False nt isValid_True_iff [of fuel h elseType v repository scope]
        by (cases c) (simp_all add: Let_def conditional_branch_def newValidationError_def)
    qed
  qed
qed

text \<open>
  Claim C3. The guard of a conditional node is evaluated against \<open>scope.parent\<close> when
  that is not null, else against \<open>scope.root\<close> (the evaluator never sets the parent to
  \<open>undefined\<close>). When the guard is true the value is evaluated against \<open>thenType\<close> and
  nothing else; when it is false, against \<open>elseType\<close> (a node) and nothing else; when
  it is indeterminate, the evaluation returns if the isolated evaluations of the two
  branches do, and whenever it returns the collector is as it was if and only if one of
  the branches ends with no diagnostic, and otherwise has exactly one more
  \<open>TypeMismatch\<close> at the current path.
\<close>

theorem conditional_tri_state:
  assumes "parent scope \<noteq> JUndefined"
  shows "(evaluateCondition h condition (if parent scope = JNull then root scope else parent scope)
            = Some True \<longrightarrow>
          validateTypeNode fuel h (KConditional condition thenType elseType) v p repository errors scope
            = validateTypeNode fuel h thenType v p repository errors scope)
       \<and> (evaluateCondition h condition (if parent scope = JNull then root scope else parent scope)
            = Some False \<and> truthy_node elseType \<longrightarrow>
          validateTypeNode fuel h (KConditional condition thenType elseType) v p repository errors scope
            = validateTypeNode fuel h elseType v p repository errors scope)
       \<and> (evaluateCondition h condition (if parent scope = JNull then root scope else parent scope)
            = None
          \<and> validateTypeNode fuel h thenType v ''$'' repository [] scope = Inr r1
          \<and> validateTypeNode fuel h elseType v ''$'' repository [] scope = Inr r2 \<longrightarrow>
          validateTypeNode fuel h (KConditional condition thenType elseType) v p repository errors scope
            = Inr (if r1 = [] \<or> r2 = [] then errors
                   else errors @ [\<lparr>path = p, message = ''Value does not match conditional branches.'',
                                     code = ''TypeMismatch'', category = ''TypeError''\<rparr>]))
       \<and> (evaluateCondition h condition (if parent scope = JNull then root scope else parent scope)
            = None
          \<and> validateTypeNode fuel h (KConditional condition thenType elseType) v p repository errors
                scope = Inr r \<longrightarrow>
          r = (if validateTypeNode fuel h thenType v ''$'' repository [] scope = Inr []
                  \<or> validateTypeNode fuel h elseType v ''$'' repository [] scope = Inr []
               then errors
               else errors @ [\<lparr>path = p, message = ''Value does not match conditional branches.'',
                                 code = ''TypeMismatch'', category = ''TypeError''\<rparr>]))"
proof -
  have g: "guard_scope scope = (if parent scope = JNull then root scope else parent scope)"
    using assms by (simp add: guard_scope_def nullish_iff)
  show ?thesis
    using conditional_true [of h condition scope fuel thenType elseType v p repository errors]
      conditional_false [of h condition scope elseType fuel thenType v p repository errors]
      conditional_indeterminate [of h condition scope fuel thenType v repository r1 elseType r2 p errors]
      conditional_returns [of h condition scope fuel thenType elseType v p repository errors r]
    unfolding g by blast
qed

theorem conditional_tri_state_witness:
  "parent \<lparr>root = JNull, current = JStr ''because'',
            parent = JObj [(''status'', JStr ''Rejected''), (''reason'', JStr ''because'')]\<rparr>
     \<noteq> (JUndefined :: int json)
   \<and> evaluateCondition sample_host ''status = Rejected''
        (JObj [(''status'', JStr ''Rejected''), (''reason'', JStr ''because'')]) = Some True
   \<and> validateTypeNode 0 sample_host
        (KConditional ''status = Rejected'' (KNamed ''Int'' (Some [])) KAbsent) (JStr ''because'')
        ''$.reason'' sample_repository []
        \<lparr>root = JNull, current = JStr ''because'',
          parent = JObj [(''status'', JStr ''Rejected''), (''reason'', JStr ''because'')]\<rparr>
      = Inr [\<lparr>path = ''$.reason'', message = ''Expected Int.'', code = ''TypeMismatch'',
               category = ''TypeError''\<rparr>]
   \<and> evaluateCondition sample_host ''status = Rejected''
        (JObj [(''status'', JStr ''Draft''), (''reason'', JStr ''because'')]) = Some False
   \<and> truthy_node (KAbsent :: int typeNode)
   \<and> validateTypeNode 0 sample_host
        (KConditional ''status = Rejected'' (KNamed ''Int'' (Some [])) KAbsent) (JStr ''because'')
        ''$.reason'' sample_repository []
        \<lparr>root = JNull, current = JStr ''because'',
          parent = JObj [(''status'', JStr ''Draft''), (''reason'', JStr ''because'')]\<rparr>
      = Inr [\<lparr>path = ''$.reason'', message = ''Expected field to be absent.'',
               code = ''FieldMustBeAbsent'', category = ''ValidationError''\<rparr>]
   \<and> evaluateCondition sample_host ''status = Rejected'' (JArr [JStr ''because'']) = None
   \<and> validateTypeNode 0 sample_host
        (KConditional ''status = Rejected'' (KNamed ''Int'' (Some [])) KAbsent) (JStr ''because'')
        ''$[0]'' sample_repository []
        \<lparr>root = JNull, current = JStr ''because'', parent = JArr [JStr ''because'']\<rparr>
      = Inr [\<lparr>path = ''$[0]'', message = ''Value does not match conditional branches.'',
               code = ''TypeMismatch'', category = ''TypeError''\<rparr>]"
proof -
  let ?node = "KConditional ''status = Rejected'' (KNamed ''Int'' (Some [])) KAbsent :: int typeNode"
  let ?rejected = "JObj [(''status'', JStr ''Rejected''), (''reason'', JStr ''because'')] :: int json"
  let ?draft = "JObj [(''status'', JStr ''Draft''), (''reason'', JStr ''because'')] :: int json"
  let ?items = "JArr [JStr ''because''] :: int json"
  let ?scope = "\<lambda>q. \<lparr>root = JNull, current = JStr ''because'', parent = q\<rparr> :: int scope"
  have c1: "evaluateCondition sample_host ''status = Rejected'' ?rejected = Some True"
    by code_simp
  have c2: "evaluateCondition sample_host ''status = Rejected'' ?draft = Some False"
    by code_simp
  have c3: "evaluateCondition sample_host ''status = Rejected'' ?items = None"
    by (simp add: evaluateCondition_def)
  have named: "validateTypeNode 0 sample_host (KNamed ''Int'' (Some [])) (JStr ''because'') q
      sample_repository [] sc
      = Inr [\<lparr>path = q, message = ''Expected Int.'', code = ''TypeMismatch'',
               category = ''TypeError''\<rparr>]" for q sc
    by (simp add: validateNamed.simps validateAgainstTypeName.simps sample_repository_def
        sample_Int_def newValidationError_def)
  have absent: "validateTypeNode 0 sample_host KAbsent (JStr ''because'') q sample_repository [] sc
      = Inr [\<lparr>path = q, message = ''Expected field to be absent.'', code = ''FieldMustBeAbsent'',
               category = ''ValidationError''\<rparr>]" for q sc
    by (simp add: newValidationError_def)
  have r1: "validateTypeNode 0 sample_host ?node (JStr ''because'') ''$.reason'' sample_repository []
      (?scope ?rejected)
      = validateTypeNode 0 sample_host (KNamed ''Int'' (Some [])) (JStr ''because'') ''$.reason''
          sample_repository [] (?scope ?rejected)"
    using conditional_tri_state [where scope = "?scope ?rejected" and h = sample_host
        and condition = "''status = Rejected''", THEN conjunct1, rule_format] c1
    by simp
  have r2: "validateTypeNode 0 sample_host ?node (JStr ''because'') ''$.reason'' sample_repository []
      (?scope ?draft)
      = validateTypeNode 0 sample_host KAbsent (JStr ''because'') ''$.reason''
          sample_repository [] (?scope ?draft)"
    using conditional_tri_state [where scope = "?scope ?draft" and h = sample_host
        and condition = "''status = Rejected''" and elseType = KAbsent,
        THEN conjunct2, THEN conjunct1, rule_format] c2
    by simp
  have r3: "validateTypeNode 0 sample_host ?node (JStr ''because'') ''$[0]'' sample_repository []
      (?scope ?items)
      = Inr [\<lparr>path = ''$[0]'', message = ''Value does not match conditional branches.'',
               code = ''TypeMismatch'', category = ''TypeError''\<rparr>]"
    using conditional_tri_state [where scope = "?scope ?items" and h = sample_host
        and condition = "''status = Rejected''" and fuel = 0 and repository = sample_repository
        and v = "JStr ''because''" and thenType = "KNamed ''Int'' (Some [])" and elseType = KAbsent
        and p = "''$[0]''" and errors = "[]",
        THEN conjunct2, THEN conjunct2, THEN conjunct1, rule_format] c3
      named [of "''$''" "?scope ?items"] absent [of "''$''" "?scope ?items"]
    by simp
  show ?thesis
    using c1 c2 c3 r1 r2 r3 named absent by simp
qed

subsection \<open>Records\<close>

lemma for_each_all_absent:
  "\<forall>f \<in> set fs. field_name f \<notin> fst ` set kvs \<Longrightarrow>
   for_each (record_field fuel h kvs p repository scope) fs es
     = Inr (es @ map (field_missing p) (filter (\<lambda>f. \<not> skipped_when_absent f) fs))"
proof (induction fs arbitrary: es)
  case Nil
  then show ?case by simp
next
  case (Cons f fs)
  have "map_of kvs (field_name f) = None"
    using Cons.prems by (simp add: map_of_eq_None_iff)
  then show ?case
    using Cons by (simp add: record_field_def)
qed

text \<open>
  Claim C5. For a record node and an object, the declared fields are processed in their
  order, each by the rule of the specification (\<open>record_field\<close>): an absent key is skipped
  exactly when the field is optional, has a default expression or is declared \<open>Absent\<close>,
  and is otherwise reported by one \<open>FieldMissing\<close> at \<open>path.name\<close>. Only the keys of
  declared fields are looked up: when none of them is present, whatever other keys the
  object has, the diagnostics added are the \<open>FieldMissing\<close> of the required fields and
  nothing else. (A field whose declared type is \<open>null\<close> is outside the data model: the
  code throws on it.)
\<close>

theorem record_fields_in_order:
  assumes "\<forall>f \<in> set fieldDefs. field_type f \<noteq> NullNode"
  shows "validateTypeNode fuel h (KRecord fieldDefs) (JObj kvs) p repository errors scope
           = for_each (record_field fuel h kvs p repository scope) fieldDefs errors
         \<and> ((\<forall>f \<in> set fieldDefs. field_name f \<notin> fst ` set kvs) \<longrightarrow>
            validateTypeNode fuel h (KRecord fieldDefs) (JObj kvs) p repository errors scope
              = Inr (errors @ map (field_missing p)
                                (filter (\<lambda>f. \<not> skipped_when_absent f) fieldDefs)))"
proof -
  let ?f = "\<lambda>field es.
             if \<not> hasOwnProperty (JObj kvs) (field_name field) then
               (if optional field \<or> defaultExpr field \<noteq> None then Inr es
                else (case field_type field of
                        NullNode \<Rightarrow> Inl TypeErrorThrown
                      | KAbsent \<Rightarrow> Inr es
                      | _ \<Rightarrow> Inr (es @ [newValidationError (p @ ''.'' @ field_name field)
                                 ''Missing required field.'' ''FieldMissing'' ''ValidationError''])))
             else
               validateTypeNode fuel h (field_type field)
                 (get_property (JObj kvs) (field_name field))
                 (p @ ''.'' @ field_name field) repository es
                 (scope\<lparr>current := get_property (JObj kvs) (field_name field),
                        parent := JObj kvs\<rparr>)"
  have step: "?f f es = record_field fuel h kvs p repository scope f es"
    if "f \<in> set fieldDefs" for f es
  proof (cases "map_of kvs (field_name f)")
    case None
    then have "field_name f \<notin> fst ` set kvs"
      by (simp add: map_of_eq_None_iff)
    then show ?thesis
      using None assms that
      by (auto simp: record_field_def skipped_when_absent_def field_missing_def
          newValidationError_def split: typeNode.splits)
  next
    case (Some w)
    then have "field_name f \<in> fst ` set kvs"
      using map_of_eq_None_iff [of kvs "field_name f"] by auto
    then show ?thesis
      using Some by (simp add: record_field_def)
  qed
  have "for_each ?f fieldDefs errors
      = for_each (record_field fuel h kvs p repository scope) fieldDefs errors"
    by (rule for_each_cong [OF refl refl]) (rule step)
  then have eq: "validateTypeNode fuel h (KRecord fieldDefs) (JObj kvs) p repository errors scope
           = for_each (record_field fuel h kvs p repository scope) fieldDefs errors"
    by simp
  show ?thesis
    using eq for_each_all_absent [of fieldDefs kvs fuel h p repository scope errors] by simp
qed

theorem record_fields_in_order_witness:
  "field_type (FieldDef ''title'' (KNamed ''String'' (Some [])) False None) \<noteq> (NullNode :: int typeNode)
   \<and> field_type (FieldDef ''note'' (KNamed ''String'' (Some [])) True None) \<noteq> (NullNode :: int typeNode)
   \<and> field_type (FieldDef ''reason'' KAbsent False None) \<noteq> (NullNode :: int typeNode)
   \<and> field_type (FieldDef ''id'' (KNamed ''Int'' (Some [])) False None) \<noteq> (NullNode :: int typeNode)
   \<and> set [''title'', ''note'', ''reason'', ''id''] \<inter> fst ` set [(''extra'', JNum (1::int))] = {}
   \<and> validateTypeNode 0 sample_host
        (KRecord [FieldDef ''title'' (KNamed ''String'' (Some [])) False None,
                  FieldDef ''note'' (KNamed ''String'' (Some [])) True None,
                  FieldDef ''reason'' KAbsent False None,
                  FieldDef ''id'' (KNamed ''Int'' (Some [])) False None])
        (JObj [(''extra'', JNum 1)]) ''$'' sample_repository [] (sample_scope JNull)
      = Inr [\<lparr>path = ''$.title'', message = ''Missing required field.'', code = ''FieldMissing'',
               category = ''ValidationError''\<rparr>,
             \<lparr>path = ''$.id'', message = ''Missing required field.'', code = ''FieldMissing'',
               category = ''ValidationError''\<rparr>]"
proof -
  let ?fs = "[FieldDef ''title'' (KNamed ''String'' (Some [])) False None,
              FieldDef ''note'' (KNamed ''String'' (Some [])) True None,
              FieldDef ''reason'' KAbsent False None,
              FieldDef ''id'' (KNamed ''Int'' (Some [])) False None] :: int fieldDef list"
  have h1: "\<forall>f \<in> set ?fs. field_type f \<noteq> NullNode"
    by simp
  have h2: "\<forall>f \<in> set ?fs. field_name f \<notin> fst ` set [(''extra'', JNum (1::int))]"
    by simp
  have "validateTypeNode 0 sample_host (KRecord ?fs) (JObj [(''extra'', JNum 1)]) ''$''
      sample_repository [] (sample_scope JNull)
      = Inr ([] @ map (field_missing ''$'') (filter (\<lambda>f. \<not> skipped_when_absent f) ?fs))"
    by (rule record_fields_in_order [OF h1, THEN conjunct2, THEN mp, OF h2])
  then have r: "validateTypeNode 0 sample_host (KRecord ?fs) (JObj [(''extra'', JNum 1)]) ''$''
      sample_repository [] (sample_scope JNull)
      = Inr [\<lparr>path = ''$.title'', message = ''Missing required field.'', code = ''FieldMissing'',
               category = ''ValidationError''\<rparr>,
             \<lparr>path = ''$.id'', message = ''Missing required field.'', code = ''FieldMissing'',
               category = ''ValidationError''\<rparr>]"
    by (simp add: skipped_when_absent_def field_missing_def)
  show ?thesis
    using r by simp
qed

subsection \<open>Guard expressions\<close>

lemma ws_not_ident: "is_ws c \<Longrightarrow> \<not> ident_char c \<and> c \<noteq> CHR ''.''"
  by (auto simp: is_ws_def ident_char_def ident_start_def is_digit_def)

lemma ident_char_not_dot: "ident_char c \<Longrightarrow> c \<noteq> CHR ''.''"
  by (auto simp: ident_char_def ident_start_def is_digit_def)

lemma ident_start_char: "ident_start c \<Longrightarrow> ident_char c"
  by (simp add: ident_char_def)

lemma dotted_tail_stop:
  "r = [] \<or> (\<not> ident_char (hd r) \<and> hd r \<noteq> CHR ''.'') \<Longrightarrow> dotted_tail r = ([], r)"
  by (cases r rule: dotted_tail.cases) auto

lemma dotted_tail_ident:
  "list_all ident_char s \<Longrightarrow>
   dotted_tail (s @ r) = (s @ fst (dotted_tail r), snd (dotted_tail r))"
proof (induction s)
  case Nil
  then show ?case by simp
next
  case (Cons c s)
  show ?case
  proof (cases "s @ r")
    case Nil
    then show ?thesis using Cons.prems by simp
  next
    case (Cons d ds)
    then have "dotted_tail (c # s @ r) = (c # fst (dotted_tail (s @ r)), snd (dotted_tail (s @ r)))"
      using Cons.prems by (simp add: case_prod_beta)
    then show ?thesis using Cons.IH Cons.prems by simp
  qed
qed

lemma dotted_tail_dot:
  "ident_start d \<Longrightarrow>
   dotted_tail (CHR ''.'' # d # ds) = (CHR ''.'' # d # fst (dotted_tail ds), snd (dotted_tail ds))"
  using ident_char_not_dot [of "CHR ''.''"] by (auto simp: case_prod_beta)

lemma dotted_tail_segments:
  assumes "list_all ident_char pre" and "list_all is_identifier segs"
    and "r = [] \<or> (\<not> ident_char (hd r) \<and> hd r \<noteq> CHR ''.'')"
  shows "dotted_tail (pre @ concat (map ((#) (CHR ''.'')) segs) @ r)
         = (pre @ concat (map ((#) (CHR ''.'')) segs), r)"
  using assms(1,2)
proof (induction segs arbitrary: pre)
  case Nil
  then show ?case
    using dotted_tail_ident [of pre r] dotted_tail_stop [OF assms(3)] by simp
next
  case (Cons t segs)
  from Cons.prems(2) obtain d t' where t: "t = d # t'" "ident_start d" "list_all ident_char t'"
    by (cases t) (auto simp: is_identifier_def)
  let ?rest = "concat (map ((#) (CHR ''.'')) segs) @ r"
  have "dotted_tail (t' @ ?rest) = (t' @ concat (map ((#) (CHR ''.'')) segs), r)"
    using Cons.IH [of t'] t(3) Cons.prems(2) by simp
  then have "dotted_tail (CHR ''.'' # d # t' @ ?rest)
      = (CHR ''.'' # d # t' @ concat (map ((#) (CHR ''.'')) segs), r)"
    using dotted_tail_dot [OF t(2), of "t' @ ?rest"] by simp
  then show ?case
    using dotted_tail_ident [OF Cons.prems(1), of "CHR ''.'' # d # t' @ ?rest"] t(1) by simp
qed

lemma dotted_path_concat:
  "dotted_path (s # segs) = s @ concat (map ((#) (CHR ''.'')) segs)"
  by (induction segs arbitrary: s) simp_all

lemma split_on_ident:
  "list_all ident_char s \<Longrightarrow>
   split_on (CHR ''.'') (s @ r) = (s @ hd (split_on (CHR ''.'') r)) # tl (split_on (CHR ''.'') r)"
proof (induction s)
  case Nil
  then show ?case by (cases r) (auto split: list.splits)
next
  case (Cons c s)
  then show ?case using ident_char_not_dot [of c] by (auto split: list.splits)
qed

lemma is_identifier_chars: "is_identifier s \<Longrightarrow> list_all ident_char s \<and> s \<noteq> []"
  by (cases s) (auto simp: is_identifier_def ident_start_char)

lemma split_on_dotted_path:
  "list_all is_identifier (s # segs) \<Longrightarrow> split_on (CHR ''.'') (dotted_path (s # segs)) = s # segs"
proof (induction segs arbitrary: s)
  case Nil
  then show ?case
    using split_on_ident [of s "[]"] is_identifier_chars [of s] by simp
next
  case (Cons t segs)
  have "split_on (CHR ''.'') (dotted_path (t # segs)) = t # segs"
    using Cons.IH [of t] Cons.prems by simp
  then show ?case
    using split_on_ident [of s "CHR ''.'' # dotted_path (t # segs)"] is_identifier_chars [of s]
      Cons.prems
    by simp
qed

lemma skip_ws_prefix:
  "list_all is_ws ws \<Longrightarrow> r \<noteq> [] \<Longrightarrow> \<not> is_ws (hd r) \<Longrightarrow> skip_ws (ws @ r) = r"
  by (induction ws) (auto simp: skip_ws_def dropWhile_eq_self_iff)

lemma match_condition_form:
  assumes "guard_form segments ws1 opr ws2 literal"
  shows "match_condition (dotted_path segments @ ws1 @ opr @ ws2 @ literal)
         = Some (dotted_path segments, opr, literal)"
proof -
  from assms obtain s segs where segments: "segments = s # segs"
    by (cases segments) (auto simp: guard_form_def)
  from assms segments obtain a s' where s: "s = a # s'" "ident_start a" "list_all ident_char s'"
    by (cases s) (auto simp: guard_form_def is_identifier_def)
  let ?r = "ws1 @ opr @ ws2 @ literal"
  have opr: "opr = ''='' \<or> opr = ''!=''" and lit: "literal \<noteq> []" "\<not> is_ws (hd literal)"
    and ws: "list_all is_ws ws1" "list_all is_ws ws2" and ids: "list_all is_identifier segs"
    using assms segments by (auto simp: guard_form_def)
  have opr_hd: "\<not> is_ws (hd (opr @ ws2 @ literal))" "opr @ ws2 @ literal \<noteq> []"
    using opr by (auto simp: is_ws_def)
  have stop: "?r = [] \<or> (\<not> ident_char (hd ?r) \<and> hd ?r \<noteq> CHR ''.'')"
  proof (cases ws1)
    case Nil
    then show ?thesis using opr by (auto simp: ident_char_def ident_start_def is_digit_def)
  next
    case (Cons c cs)
    then show ?thesis using ws(1) ws_not_ident [of c] by simp
  qed
  have tail: "dotted_tail (s' @ concat (map ((#) (CHR ''.'')) segs) @ ?r)
      = (s' @ concat (map ((#) (CHR ''.'')) segs), ?r)"
    by (rule dotted_tail_segments [OF s(3) ids stop])
  have skip1: "skip_ws ?r = opr @ ws2 @ literal"
    using skip_ws_prefix [OF ws(1) opr_hd(2) opr_hd(1)] by simp
  have skip2: "rest_group (ws2 @ literal) = literal"
    using skip_ws_prefix [OF ws(2) lit] lit by (simp add: rest_group_def)
  have path: "dotted_path segments = a # s' @ concat (map ((#) (CHR ''.'')) segs)"
    using segments s(1) dotted_path_concat [of s segs] by simp
  show ?thesis
    unfolding path
    using opr tail skip1 skip2 s(2) lit
    by (auto simp: match_condition_def startsWith_def)
qed

lemma walk_path_append:
  "walk_path before obj = Some cur \<Longrightarrow> walk_path (before @ rest) obj = walk_path rest cur"
  by (induction before arbitrary: obj) (auto split: if_splits)

text \<open>
  Claim C4, as the code has it. For a guard expression of the form
  \<open>dotted.path <op> literal\<close> evaluated against an object: when the walk along the path
  reaches a value that is not an object, or an object that lacks the next segment, the
  condition is \<open>false\<close>. When the scope itself is not an object the result is
  indeterminate, whatever the expression.
\<close>

theorem evaluateCondition_missing_segment:
  "(guard_form segments gap opr gap' literal \<and> isObject objectValue
      \<and> segments = before @ segment # after \<and> walk_path before objectValue = Some cur
      \<and> (\<not> isObject cur \<or> \<not> hasOwnProperty cur segment) \<longrightarrow>
    evaluateCondition h (dotted_path segments @ gap @ opr @ gap' @ literal) objectValue = Some False)
   \<and> (\<not> isObject objectValue \<longrightarrow> evaluateCondition h condition objectValue = None)"
proof (intro conjI impI)
  assume a: "guard_form segments gap opr gap' literal \<and> isObject objectValue
      \<and> segments = before @ segment # after \<and> walk_path before objectValue = Some cur
      \<and> (\<not> isObject cur \<or> \<not> hasOwnProperty cur segment)"
  then have form: "guard_form segments gap opr gap' literal" and obj: "isObject objectValue"
    and split: "segments = before @ segment # after"
    and reach: "walk_path before objectValue = Some cur"
    and bad: "\<not> isObject cur \<or> \<not> hasOwnProperty cur segment"
    by blast+
  have m: "match_condition (dotted_path segments @ gap @ opr @ gap' @ literal)
      = Some (dotted_path segments, opr, literal)"
    using form by (rule match_condition_form)
  have "segments \<noteq> []"
    using form by (simp add: guard_form_def)
  then obtain s segs where segments: "segments = s # segs"
    using list.exhaust by blast
  have ids: "list_all is_identifier (s # segs)"
    using form unfolding segments by (simp add: guard_form_def)
  have sp: "split_on (CHR ''.'') (dotted_path segments) = segments"
    using split_on_dotted_path [OF ids] unfolding segments by simp
  have "walk_path (before @ segment # after) objectValue = walk_path (segment # after) cur"
    using reach by (rule walk_path_append)
  then have "walk_path segments objectValue = None"
    using bad split by auto
  then show "evaluateCondition h (dotted_path segments @ gap @ opr @ gap' @ literal) objectValue
      = Some False"
    using obj m sp by (simp add: evaluateCondition_def)
next
  assume "\<not> isObject objectValue"
  then show "evaluateCondition h condition objectValue = None"
    by (simp add: evaluateCondition_def)
qed

theorem evaluateCondition_missing_segment_witness:
  "guard_form [''a'', ''b''] '' '' ''!='' '' '' ''1''
   \<and> isObject (JObj [(''a'', JObj [(''c'', JNum (1::int))])])
   \<and> walk_path [''a''] (JObj [(''a'', JObj [(''c'', JNum (1::int))])])
        = Some (JObj [(''c'', JNum 1)])
   \<and> \<not> hasOwnProperty (JObj [(''c'', JNum (1::int))]) ''b''
   \<and> evaluateCondition sample_host (dotted_path [''a'', ''b''] @ '' '' @ ''!='' @ '' '' @ ''1'')
        (JObj [(''a'', JObj [(''c'', JNum 1)])]) = Some False
   \<and> \<not> isObject (JNum (1::int))
   \<and> evaluateCondition sample_host ''a.b != 1'' (JNum 1) = None"
proof -
  let ?obj = "JObj [(''a'', JObj [(''c'', JNum (1::int))])]"
  have h1: "guard_form [''a'', ''b''] '' '' ''!='' '' '' ''1''"
    by (simp add: guard_form_def is_identifier_def ident_start_def ident_char_def is_ws_def)
  have h2: "isObject ?obj"
    by simp
  have h3: "walk_path [''a''] ?obj = Some (JObj [(''c'', JNum 1)])"
    by simp
  have h4: "\<not> hasOwnProperty (JObj [(''c'', JNum (1::int))]) ''b''"
    by simp
  have h5: "\<not> isObject (JNum (1::int))"
    by simp
  have r1: "evaluateCondition sample_host (dotted_path [''a'', ''b''] @ '' '' @ ''!='' @ '' '' @ ''1'')
      ?obj = Some False"
    using evaluateCondition_missing_segment [where h = sample_host
        and segments = "[''a'', ''b'']" and before = "[''a'']" and segment = "''b''"
        and after = "[]" and cur = "JObj [(''c'', JNum 1)]" and objectValue = ?obj
        and gap = "'' ''" and opr = "''!=''" and gap' = "'' ''" and literal = "''1''",
        THEN conjunct1, rule_format] h1 h2 h3 h4
    by simp
  have r2: "evaluateCondition sample_host ''a.b != 1'' (JNum 1) = None"
    using evaluateCondition_missing_segment [where h = sample_host
        and objectValue = "JNum 1" and condition = "''a.b != 1''",
        THEN conjunct2, rule_format] h5
    by simp
  show ?thesis
    using h1 h2 h3 h4 h5 r1 r2 by simp
qed

text \<open>
  Claim C4 as stated fails: against a scope that is not an object (here an array, the
  parent of an array element) the condition is indeterminate, not \<open>false\<close>.
\<close>

theorem evaluateCondition_scope_counterexample:
  "guard_form [''status''] '' '' ''='' '' '' ''1''
   \<and> dotted_path [''status''] @ '' '' @ ''='' @ '' '' @ ''1'' = ''status = 1''
   \<and> \<not> isObject (JArr [] :: int json)
   \<and> evaluateCondition sample_host ''status = 1'' (JArr []) \<noteq> Some False"
  by (simp add: guard_form_def is_identifier_def ident_start_def ident_char_def is_ws_def
      evaluateCondition_def)

subsection \<open>Literal coercion\<close>

lemma decode_fold:
  "fst (foldl decode_char (out, False) cs) = out @ unescape cs"
proof (induction cs arbitrary: out rule: unescape.induct)
  case 1
  then show ?case by simp
next
  case (2 c)
  then show ?case by simp
next
  case (3 c d r)
  show ?case
  proof (cases "c = backslash")
    case True
    then show ?thesis using "3.IH"(1) by simp
  next
    case False
    then show ?thesis using "3.IH"(2) [of "out @ [c]"] by simp
  qed
qed

lemma inner_indices: "map (\<lambda>i. v ! i) [1 ..< length v - 1] = butlast (tl v)"
  by (rule nth_equalityI) (auto simp: nth_butlast nth_tl)

lemma decodeStringLiteral_unescape: "decodeStringLiteral v = unescape (butlast (tl v))"
  unfolding decodeStringLiteral_def inner_indices
  using decode_fold [of "[]" "butlast (tl v)"] by simp

lemma digit_not_dot: "is_digit c \<Longrightarrow> c \<noteq> CHR ''.'' \<and> c \<noteq> CHR ''-''"
  by (auto simp: is_digit_def)

lemma digits_then:
  assumes "list_all is_digit ds" and "r = [] \<or> \<not> is_digit (hd r)"
  shows "takeWhile is_digit (ds @ r) = ds" and "dropWhile is_digit (ds @ r) = r"
proof -
  have all: "\<And>x. x \<in> set ds \<Longrightarrow> is_digit x"
    using assms(1) by (simp add: list_all_iff)
  have "takeWhile is_digit r = []" "dropWhile is_digit r = r"
    using assms(2) by (cases r; simp)+
  then show "takeWhile is_digit (ds @ r) = ds" "dropWhile is_digit (ds @ r) = r"
    using all by (simp_all add: takeWhile_append2 dropWhile_append2)
qed

lemma numeric_literal_iff: "is_numeric_literal t \<longleftrightarrow> decimal_literal t"
proof
  assume n: "is_numeric_literal t"
  let ?r = "if startsWith t ''-'' then tl t else t"
  let ?sgn = "if startsWith t ''-'' then ''-'' else []"
  let ?whole = "takeWhile is_digit ?r"
  let ?rest = "dropWhile is_digit ?r"
  have t: "t = ?sgn @ ?whole @ ?rest"
    by (cases t) (auto simp: startsWith_def)
  have n1: "?whole \<noteq> []"
    and n2: "?rest = [] \<or> (hd ?rest = CHR ''.'' \<and> tl ?rest \<noteq> [] \<and> list_all is_digit (tl ?rest))"
    using n by (simp_all add: is_numeric_literal_def Let_def)
  have w: "?whole \<noteq> []" "list_all is_digit ?whole"
    using n1 by (auto simp: list_all_iff dest: set_takeWhileD)
  have r: "?rest = [] \<or> (\<exists>ds. ?rest = CHR ''.'' # ds \<and> ds \<noteq> [] \<and> list_all is_digit ds)"
  proof (cases "?rest = []")
    case True
    then show ?thesis by (rule disjI1)
  next
    case False
    then have parts: "hd ?rest = CHR ''.''" "tl ?rest \<noteq> []" "list_all is_digit (tl ?rest)"
      using n2 by blast+
    have "?rest = hd ?rest # tl ?rest"
      using False by (rule hd_Cons_tl [symmetric])
    then have "?rest = CHR ''.'' # tl ?rest"
      unfolding parts(1) .
    then show ?thesis
      using parts(2,3) by blast
  qed
  have s: "?sgn = [] \<or> ?sgn = ''-''"
    by simp
  show "decimal_literal t"
    unfolding decimal_literal_def
    apply (rule exI [of _ "?sgn"], rule exI [of _ "?whole"], rule exI [of _ "?rest"])
    apply (intro conjI)
        apply (rule t)
       apply (rule s)
      apply (rule w(1))
     apply (rule w(2))
    apply (rule r)
    done
next
  assume "decimal_literal t"
  then obtain sgn whole frac where t: "t = sgn @ whole @ frac"
    and sgn: "sgn = [] \<or> sgn = ''-''"
    and whole: "whole \<noteq> []" "list_all is_digit whole"
    and frac: "frac = [] \<or> (\<exists>ds. frac = CHR ''.'' # ds \<and> ds \<noteq> [] \<and> list_all is_digit ds)"
    unfolding decimal_literal_def by blast
  have hdw: "is_digit (hd whole)"
    using whole by (cases whole) simp_all
  have r: "(if startsWith t ''-'' then tl t else t) = whole @ frac"
    using sgn t whole(1) hdw digit_not_dot [of "hd whole"]
    by (cases whole) (auto simp: startsWith_def)
  have stop: "frac = [] \<or> \<not> is_digit (hd frac)"
    using frac digit_not_dot [of "CHR ''.''"] by auto
  show "is_numeric_literal t"
    unfolding is_numeric_literal_def Let_def r
    using digits_then [OF whole(2) stop] whole(1) frac by auto
qed

lemma quote_test:
  "startsWith t [q] \<and> endsWith t [q] \<longleftrightarrow> t = [q] \<or> (\<exists>inner. t = q # inner @ [q])"
proof
  assume a: "startsWith t [q] \<and> endsWith t [q]"
  then have ne: "t \<noteq> []" and h: "hd t = q" and l: "last t = q"
    by (cases t; auto simp: startsWith_def endsWith_def last_conv_nth hd_drop_conv_nth
        dest: arg_cong [where f = hd])+
  show "t = [q] \<or> (\<exists>inner. t = q # inner @ [q])"
  proof (cases "tl t")
    case Nil
    then show ?thesis using ne h by (cases t) simp_all
  next
    case (Cons c cs)
    then have "t = q # butlast (tl t) @ [q]"
      using ne h l by (cases t) (auto simp: last_ConsR)
    then show ?thesis by blast
  qed
next
  assume "t = [q] \<or> (\<exists>inner. t = q # inner @ [q])"
  then show "startsWith t [q] \<and> endsWith t [q]"
    by (auto simp: startsWith_def endsWith_def)
qed

text \<open>
  Literal coercion as the code has it: the claim's cases, and one more, the text of a
  single quote character, which the code takes for a quoted text with nothing inside.
\<close>

lemma parseMaybeLiteral_coercion:
  "parseMaybeLiteral h v =
     (case v of
        JStr s \<Rightarrow>
          (let t = trim s in
           if t = ''true'' then JBool True
           else if t = ''false'' then JBool False
           else if t = ''null'' then JNull
           else if decimal_literal t then JNum (to_number h t)
           else if quoted t \<or> t = [dquote] \<or> t = [squote] then JStr (unescape (butlast (tl t)))
           else JStr t)
      | _ \<Rightarrow> v)"
proof -
  have q: "(startsWith t [dquote] \<and> endsWith t [dquote]) \<or> (startsWith t [squote] \<and> endsWith t [squote])
      \<longleftrightarrow> quoted t \<or> t = [dquote] \<or> t = [squote]" for t
    unfolding quote_test quoted_def by blast
  show ?thesis
    by (cases v) (simp_all add: Let_def numeric_literal_iff q decodeStringLiteral_unescape)
qed

text \<open>
  Claim C7 at the text of one double quote: it is not a quoted text and trimming leaves
  it as it is, so the claim gives the text itself; the code gives the empty string.
\<close>

theorem parseMaybeLiteral_lone_quote:
  "\<not> quoted [dquote] \<and> trim [dquote] = [dquote]
   \<and> parseMaybeLiteral h (JStr [dquote]) = JStr []
   \<and> parseMaybeLiteral h (JStr [dquote]) \<noteq> JStr (trim [dquote])"
  by (simp add: quoted_def trim_def is_ws_def dquote_def squote_def is_numeric_literal_def
      startsWith_def endsWith_def is_digit_def decodeStringLiteral_def)


subsection \<open>Constraint application\<close>

lemma unrecognised_body_None:
  "unrecognised_body (body validator) \<Longrightarrow>
   evaluateCustomValidator h validator constraint v scope = None"
  by (auto simp: unrecognised_body_def evaluateCustomValidator_def Let_def split: option.splits)

lemma parseMaybeLiteral_literal_coercion:
  "\<not> lone_quote a \<Longrightarrow> parseMaybeLiteral h a = literal_coercion h a"
  unfolding parseMaybeLiteral_coercion literal_coercion_def lone_quote_def
  by (cases a) (simp_all add: Let_def)

lemma resolveConstraintArgument_resolved:
  assumes "\<forall>a \<in> set (case callArgs constraint of Some as \<Rightarrow> as | None \<Rightarrow> []). \<not> lone_quote a"
  shows "resolveConstraintArgument h constraint = resolved_argument h constraint"
proof -
  have "map (parseMaybeLiteral h) as = map (literal_coercion h) as"
    if "callArgs constraint = Some as" for as
    using assms that by (simp add: parseMaybeLiteral_literal_coercion)
  moreover have "parseMaybeLiteral h a = literal_coercion h a"
    if "callArgs constraint = Some [a]" for a
    using assms that by (simp add: parseMaybeLiteral_literal_coercion)
  ultimately show ?thesis
    by (auto simp: resolveConstraintArgument_def resolved_argument_def
        split: option.splits list.splits)
qed

text \<open>
  One application of a constraint usage, when no call argument is the text of a lone
  quote, so that the code coerces the call arguments as the specification says: it
  appends at most one diagnostic; \<open>UnknownConstraint\<close> when the repository does not
  resolve the pair of target type and constraint name; for a builtin validator
  \<open>ConstraintViolation\<close> exactly when the native predicate, given the value and the
  resolved argument, returns \<open>false\<close>; for a custom validator \<open>ValidatorFailed\<close> exactly
  when the body evaluates to \<open>false\<close>, and nothing when the body cannot be parsed.
\<close>

lemma applyConstraint_outcomes:
  assumes "\<forall>a \<in> set (case callArgs constraint of Some as \<Rightarrow> as | None \<Rightarrow> []). \<not> lone_quote a"
  shows "(getValidator repository targetType (constraint_name constraint) = None \<longrightarrow>
      applyConstraint h targetType constraint v p repository errors scope =
        errors @ [\<lparr>path = p,
                    message = ''Unknown constraint: '' @ targetType @ ''.'' @ constraint_name constraint,
                    code = ''UnknownConstraint'', category = ''SemanticError''\<rparr>])
   \<and> (getValidator repository targetType (constraint_name constraint) = Some validator
        \<and> validator_isBuiltin validator \<and> evaluate validator = Some native \<longrightarrow>
      applyConstraint h targetType constraint v p repository errors scope =
        (if native v (resolved_argument h constraint) = JBool False
         then errors @ [\<lparr>path = p,
                    message = ''Constraint failed: '' @ targetType @ ''.'' @ constraint_name constraint,
                    code = ''ConstraintViolation'', category = ''ValidationError''\<rparr>]
         else errors))
   \<and> (getValidator repository targetType (constraint_name constraint) = Some validator
        \<and> (validator_isBuiltin validator \<longrightarrow> evaluate validator = None) \<longrightarrow>
      applyConstraint h targetType constraint v p repository errors scope =
        (if evaluateCustomValidator h validator constraint v scope = Some False
         then errors @ [\<lparr>path = p,
                    message = ''Constraint failed: '' @ targetType @ ''.'' @ constraint_name constraint,
                    code = ''ValidatorFailed'', category = ''ValidationError''\<rparr>]
         else errors)
      \<and> (unrecognised_body (body validator) \<longrightarrow>
           applyConstraint h targetType constraint v p repository errors scope = errors))
   \<and> length (applyConstraint h targetType constraint v p repository errors scope)
        \<le> length errors + 1
   \<and> take (length errors) (applyConstraint h targetType constraint v p repository errors scope)
        = errors"
proof -
  have custom: "unrecognised_body (body validator) \<longrightarrow>
      evaluateCustomValidator h validator constraint v scope \<noteq> Some False"
    using unrecognised_body_None [of validator h constraint v scope] by simp
  show ?thesis
    using custom
    by (auto simp: applyConstraint_def newValidationError_def
        resolveConstraintArgument_resolved [OF assms] split: option.splits)
qed

text \<open>
  A parameter with the name of a member of \<open>Object.prototype\<close>: the assignment of its
  value \<open>1\<close> to \<open>args.__proto__\<close> is dropped by the setter, the body \<open>this <= $__proto__\<close>
  compares the value \<open>0\<close> with the prototype object, and the constraint fails.
\<close>

lemma applyConstraint_inherited_parameter:
  "applyConstraint sample_host ''Int'' (usage ''below'' None) (JNum 0) ''$'' constraint_repository []
      (sample_scope (JNum 0))
    = [\<lparr>path = ''$'', message = ''Constraint failed: Int.below'', code = ''ValidatorFailed'',
         category = ''ValidationError''\<rparr>]"
  by code_simp

text \<open>
  Claim C6 at a call argument that is the text of one double quote. The resolved
  argument of the claim is that text, since literal coercion leaves a text that is no
  literal as it is, and on it the predicate \<open>equals\<close> answers \<open>true\<close> for the value that
  is the same text: no diagnostic is due. The code hands the predicate the empty string
  instead, the predicate answers \<open>false\<close>, and \<open>ConstraintViolation\<close> is appended.
\<close>

theorem applyConstraint_lone_quote_argument:
  "resolved_argument sample_host (usage ''equals'' (Some [JStr [dquote]])) = JStr [dquote]
   \<and> getValidator constraint_repository ''String''
        (constraint_name (usage ''equals'' (Some [JStr [dquote]]))) = Some sample_equals
   \<and> validator_isBuiltin sample_equals
   \<and> evaluate sample_equals = Some equals_predicate
   \<and> equals_predicate (JStr [dquote]) (resolved_argument sample_host (usage ''equals'' (Some [JStr [dquote]])))
        = JBool True
   \<and> applyConstraint sample_host ''String'' (usage ''equals'' (Some [JStr [dquote]])) (JStr [dquote])
        ''$'' constraint_repository [] (sample_scope (JStr [dquote]))
      = [\<lparr>path = ''$'', message = ''Constraint failed: String.equals'',
           code = ''ConstraintViolation'', category = ''ValidationError''\<rparr>]"
  by (simp add: resolved_argument_def literal_coercion_def usage_def trim_def is_ws_def dquote_def
      squote_def quoted_def numeric_literal_iff [symmetric] is_numeric_literal_def startsWith_def
      endsWith_def is_digit_def constraint_repository_def sample_equals_def equals_predicate_def
      applyConstraint_def resolveConstraintArgument_def decodeStringLiteral_def
      newValidationError_def)

end
